theory Spec2Isabelle
  imports Main "HOL-Library.Word" "HOL-Library.Sublist"
begin

section \<open>Go types and values as the decoder sees them through reflection\<close>

text \<open>
  The decoder inspects its target through package \<^verbatim>\<open>reflect\<close>. A Go type is a term of
  \<open>gotype\<close>; \<open>TTime\<close> is \<^verbatim>\<open>time.Time\<close> (a struct to \<^verbatim>\<open>reflect\<close>), \<open>TIface\<close> an
  interface type such as \<^verbatim>\<open>io.Writer\<close>, \<open>TStruct\<close> a named struct type with its declared
  fields in order.
\<close>

datatype kind = KInvalid | KBool | KInt | KString | KInterface | KPtr | KSlice | KMap | KStruct

datatype gotype =
    TBool
  | TInt
  | TString
  | TTime
  | TIface string
  | TPtr gotype
  | TSlice gotype
  | TMap gotype gotype
  | TStruct string "StructField list"
and StructField =
    StructField (Name: string) (Tag: "(string \<times> string) list") (Anonymous: bool)
      (Type: gotype)

text \<open>\<^verbatim>\<open>reflect.Type.Kind()\<close>.\<close>

fun Kind :: "gotype \<Rightarrow> kind" where
  "Kind TBool = KBool"
| "Kind TInt = KInt"
| "Kind TString = KString"
| "Kind TTime = KStruct"
| "Kind (TIface n) = KInterface"
| "Kind (TPtr t) = KPtr"
| "Kind (TSlice t) = KSlice"
| "Kind (TMap k v) = KMap"
| "Kind (TStruct n fs) = KStruct"

text \<open>\<^verbatim>\<open>reflect.Type.String()\<close>: named types print their qualified name.\<close>

fun type_String :: "gotype \<Rightarrow> string" where
  "type_String TBool = ''bool''"
| "type_String TInt = ''int''"
| "type_String TString = ''string''"
| "type_String TTime = ''time.Time''"
| "type_String (TIface n) = n"
| "type_String (TPtr t) = ''*'' @ type_String t"
| "type_String (TSlice t) = ''[]'' @ type_String t"
| "type_String (TMap k v) = ''map['' @ type_String k @ '']'' @ type_String v"
| "type_String (TStruct n fs) = n"

text \<open>
  Values. A pointer owns its pointee (\<open>VPtr None\<close> is the nil pointer); a map value is
  the list of its entries; \<open>VIface\<close> is a nil interface value.
\<close>

datatype goval =
    VBool bool
  | VInt int
  | VString string
  | VTime string
  | VIface
  | VPtr "goval option"
  | VSlice "goval list"
  | VMap "(goval \<times> goval) list"
  | VStruct "goval list"

text \<open>
  An \<^verbatim>\<open>interface{}\<close> argument: the nil interface, or a dynamic type with a value of it.
\<close>

datatype iface = NilIface | Iface gotype goval

fun reflect_TypeOf :: "iface \<Rightarrow> gotype option" where
  "reflect_TypeOf NilIface = None"
| "reflect_TypeOf (Iface t x) = Some t"

text \<open>\<^verbatim>\<open>reflect.ValueOf(v).Kind()\<close>: the zero Value of a nil interface has kind Invalid.\<close>

fun val_Kind :: "iface \<Rightarrow> kind" where
  "val_Kind NilIface = KInvalid"
| "val_Kind (Iface t x) = Kind t"

text \<open>\<^verbatim>\<open>Value.IsNil()\<close>, asked of pointers only.\<close>

fun val_IsNil :: "iface \<Rightarrow> bool" where
  "val_IsNil (Iface t (VPtr (Some x))) = False"
| "val_IsNil v = True"

text \<open>\<^verbatim>\<open>Value.Elem()\<close> of a non-nil pointer: the pointee with its static type.\<close>

fun val_Elem :: "iface \<Rightarrow> gotype \<times> goval" where
  "val_Elem (Iface (TPtr t) (VPtr (Some x))) = (t, x)"
| "val_Elem (Iface t x) = (t, x)"
| "val_Elem NilIface = (TIface ''interface {}'', VIface)"

section \<open>Errors\<close>

text \<open>
  \<^verbatim>\<open>DecodeErrors\<close> is \<^verbatim>\<open>map[string]error\<close>; an entry's error is kept as its message. The
  list is the map in the order \<^verbatim>\<open>range\<close> visits it, which Go leaves unspecified: keys are
  distinct, any order can occur.
\<close>

type_synonym DecodeErrors = "(string \<times> string) list"

text \<open>The \<^verbatim>\<open>error\<close> values \<^verbatim>\<open>Decode\<close> returns.\<close>

datatype error =
    InvalidDecoderError "gotype option"
  | DecodeErrorsErr DecodeErrors

definition InvalidDecoderError_Error :: "gotype option \<Rightarrow> string" where
  "InvalidDecoderError_Error e_Type =
     (case e_Type of
        None \<Rightarrow> ''form: Decode(nil)''
      | Some t \<Rightarrow>
          if Kind t \<noteq> KPtr then ''form: Decode(non-pointer '' @ type_String t @ '')''
          else ''form: Decode(nil '' @ type_String t @ '')'')"

section \<open>The decoder\<close>

text \<open>
  \<^verbatim>\<open>url.Values\<close> is \<^verbatim>\<open>map[string][]string\<close>: the list holds its entries in the order
  \<^verbatim>\<open>range\<close> visits them (unspecified in Go), keys distinct.
\<close>

type_synonym url_Values = "(string \<times> string list) list"

text \<open>
  \<^verbatim>\<open>DecodeFunc\<close>: \<^verbatim>\<open>func(string, Argument) (interface{}, error)\<close>; \<open>Inl\<close> carries the
  error's message.
\<close>

type_synonym 'arg DecodeFunc = "string \<Rightarrow> 'arg \<Rightarrow> string + goval"

text \<open>Go's \<^verbatim>\<open>m[k] = v\<close> on a map kept as its entry list.\<close>

fun map_store :: "'k \<Rightarrow> 'v \<Rightarrow> ('k \<times> 'v) list \<Rightarrow> ('k \<times> 'v) list" where
  "map_store k v [] = [(k, v)]"
| "map_store k v ((k', v') # m) =
     (if k' = k then (k, v) # m else (k', v') # map_store k v m)"

record key =
  ivalue :: int
  key_value :: string
  searchValue :: string

record recursiveData =
  rd_alias :: string
  sliceLen :: int
  keys :: "key list"

type_synonym dataMap = "recursiveData list"

text \<open>
  The output maps callers pass as \<^verbatim>\<open>collectGoValues\<close> are shared, mutable objects: a
  reference is an address (\<open>None\<close> is the nil map), and the store gives the entries of
  the map at each address.
\<close>

type_synonym goValuesRef = "nat option"
type_synonym goValuesStore = "nat \<Rightarrow> (string \<times> goval) list"

text \<open>
  The scratch context \<^verbatim>\<open>decoder[DecodeFuncArgument]\<close>, with the fields \<^verbatim>\<open>NewDecoder\<close> and
  \<^verbatim>\<open>Decode\<close> use (its back pointer \<^verbatim>\<open>d\<close> is passed along as an argument instead).
  \<open>decodeFuncArgument = None\<close> is the zero value of the type parameter, before the first
  call stores an argument.
\<close>

record 'arg decoder =
  namespace :: string
  dec_values :: url_Values
  decodeFuncArgument :: "'arg option"
  dm :: dataMap
  goValues :: goValuesRef
  errs :: DecodeErrors
  dmDone :: bool

datatype Mode = ModeImplicit | ModeExplicit

text \<open>
  \<^verbatim>\<open>Decoder\<close>. \<open>structCache_tagFn\<close> is the \<^verbatim>\<open>tagFn\<close> field of its struct cache;
  \<open>dataPool\<close> is the \<^verbatim>\<open>sync.Pool\<close>, as the list of the contexts put back and not
  taken out again.
\<close>

record 'arg Decoder =
  tagName :: string
  mode :: Mode
  structCache_tagFn :: "(StructField \<Rightarrow> string) option"
  customTypeFuncs :: "gotype \<rightharpoonup> 'arg DecodeFunc"
  maxArraySize :: int
  dataPool :: "'arg decoder list"
  namespacePrefix :: string
  namespaceSuffix :: string

definition defaultMaxArraySize :: int where
  "defaultMaxArraySize = 10000"

definition NewDecoder :: "'arg Decoder" where
  "NewDecoder =
     \<lparr>tagName = ''form'', mode = ModeImplicit, structCache_tagFn = None,
      customTypeFuncs = Map.empty, maxArraySize = defaultMaxArraySize, dataPool = [],
      namespacePrefix = ''.'', namespaceSuffix = []\<rparr>"

text \<open>The pool's \<^verbatim>\<open>New\<close>: a fresh context, every field but the namespace buffer zero.\<close>

definition dataPool_New :: "'arg decoder" where
  "dataPool_New =
     \<lparr>namespace = [], dec_values = [], decodeFuncArgument = None, dm = [],
      goValues = None, errs = [], dmDone = False\<rparr>"

text \<open>
  \<^verbatim>\<open>sync.Pool.Get\<close> hands out a context put back earlier, or a fresh one when it has
  none; \<^verbatim>\<open>Put\<close> adds one.
\<close>

definition dataPool_Get :: "'arg Decoder \<Rightarrow> 'arg decoder \<times> 'arg Decoder" where
  "dataPool_Get d =
     (case dataPool d of
        [] \<Rightarrow> (dataPool_New, d)
      | dec # rest \<Rightarrow> (dec, d\<lparr>dataPool := rest\<rparr>))"

definition dataPool_Put :: "'arg Decoder \<Rightarrow> 'arg decoder \<Rightarrow> 'arg Decoder" where
  "dataPool_Put d dec = d\<lparr>dataPool := dec # dataPool d\<rparr>"

definition SetTagName :: "'arg Decoder \<Rightarrow> string \<Rightarrow> 'arg Decoder" where
  "SetTagName d tagName' = d\<lparr>tagName := tagName'\<rparr>"

definition SetMode :: "'arg Decoder \<Rightarrow> Mode \<Rightarrow> 'arg Decoder" where
  "SetMode d mode' = d\<lparr>mode := mode'\<rparr>"

definition SetNamespacePrefix :: "'arg Decoder \<Rightarrow> string \<Rightarrow> 'arg Decoder" where
  "SetNamespacePrefix d p = d\<lparr>namespacePrefix := p\<rparr>"

definition SetNamespaceSuffix :: "'arg Decoder \<Rightarrow> string \<Rightarrow> 'arg Decoder" where
  "SetNamespaceSuffix d s = d\<lparr>namespaceSuffix := s\<rparr>"

text \<open>\<^verbatim>\<open>int(size)\<close> of a 64-bit \<^verbatim>\<open>uint\<close>: the same bits read as two's complement.\<close>

definition SetMaxArraySize :: "'arg Decoder \<Rightarrow> 64 word \<Rightarrow> 'arg Decoder" where
  "SetMaxArraySize d size' = d\<lparr>maxArraySize := sint size'\<rparr>"

definition RegisterTagNameFunc ::
  "'arg Decoder \<Rightarrow> (StructField \<Rightarrow> string) \<Rightarrow> 'arg Decoder" where
  "RegisterTagNameFunc d fn = d\<lparr>structCache_tagFn := Some fn\<rparr>"

definition RegisterFunc :: "'arg Decoder \<Rightarrow> 'arg DecodeFunc \<Rightarrow> gotype list \<Rightarrow> 'arg Decoder" where
  "RegisterFunc d fn types =
     d\<lparr>customTypeFuncs := fold (\<lambda>t m. m(t \<mapsto> fn)) types (customTypeFuncs d)\<rparr>"

text \<open>\<^verbatim>\<open>timeType\<close>, declared outside these sources as the type of \<^verbatim>\<open>time.Time\<close>.\<close>

definition timeType :: gotype where
  "timeType = TTime"

text \<open>
  The two traversal methods \<^verbatim>\<open>Decode\<close> calls on the context are parameters here: each
  gets the decoder, the context, the value with its type and the namespace, and returns
  the context, the value and the store of output maps as it leaves them.
\<close>

type_synonym 'arg traverseStruct_t =
  "'arg Decoder \<Rightarrow> 'arg decoder \<Rightarrow> goval \<Rightarrow> gotype \<Rightarrow> string \<Rightarrow> goValuesStore
     \<Rightarrow> 'arg decoder \<times> goval \<times> goValuesStore"

type_synonym 'arg setFieldByType_t =
  "'arg Decoder \<Rightarrow> 'arg decoder \<Rightarrow> goval \<Rightarrow> gotype \<Rightarrow> bool \<Rightarrow> string \<Rightarrow> nat \<Rightarrow> goValuesStore
     \<Rightarrow> 'arg decoder \<times> goval \<times> goValuesStore"

text \<open>
  The start of \<^verbatim>\<open>Decode\<close> on a valid target: a context is taken out of the pool, given
  the call's mapping and argument, and its index records are cut to length zero.
\<close>

definition Decode_acquire ::
  "'arg Decoder \<Rightarrow> url_Values \<Rightarrow> 'arg \<Rightarrow> 'arg decoder \<times> 'arg Decoder" where
  "Decode_acquire d vals argument =
     (let (dec, d) = dataPool_Get d;
          dec = dec\<lparr>dec_values := vals, decodeFuncArgument := Some argument, dm := take 0 (dm dec)\<rparr>
      in (dec, d))"

text \<open>
  \<^verbatim>\<open>Decode\<close> up to the end of the traversal: the context, the target's element type and
  value, the decoder and the store after it.
\<close>

definition Decode_traverse ::
  "'arg traverseStruct_t \<Rightarrow> 'arg setFieldByType_t \<Rightarrow> 'arg Decoder \<Rightarrow> iface \<Rightarrow> url_Values \<Rightarrow> 'arg
     \<Rightarrow> goValuesRef list \<Rightarrow> goValuesStore
     \<Rightarrow> 'arg decoder \<times> gotype \<times> goval \<times> 'arg Decoder \<times> goValuesStore" where
  "Decode_traverse traverseStruct setFieldByType d v vals argument collectGoValues store =
     (let (dec, d) = Decode_acquire d vals argument;
          (typ, val) = val_Elem v;
          (dec, val, store) =
            (if Kind typ = KStruct \<and> typ \<noteq> timeType then
               let dec = (if length collectGoValues > 0
                          then dec\<lparr>goValues := collectGoValues ! 0\<rparr> else dec)
               in traverseStruct d dec val typ (take 0 (namespace dec)) store
             else setFieldByType d dec val typ False (take 0 (namespace dec)) 0 store)
      in (dec, typ, val, d, store))"

text \<open>
  \<^verbatim>\<open>Decode\<close>. The result is the returned error, the target as the call leaves it, the
  decoder (its pool) and the store of output maps.
\<close>

definition Decode ::
  "'arg traverseStruct_t \<Rightarrow> 'arg setFieldByType_t \<Rightarrow> 'arg Decoder \<Rightarrow> iface \<Rightarrow> url_Values \<Rightarrow> 'arg
     \<Rightarrow> goValuesRef list \<Rightarrow> goValuesStore
     \<Rightarrow> error option \<times> iface \<times> 'arg Decoder \<times> goValuesStore" where
  "Decode traverseStruct setFieldByType d v vals argument collectGoValues store =
     (if val_Kind v \<noteq> KPtr \<or> val_IsNil v then
        (Some (InvalidDecoderError (reflect_TypeOf v)), v, d, store)
      else
        let (dec, typ, val, d, store) =
              Decode_traverse traverseStruct setFieldByType d v vals argument collectGoValues store;
            (err, dec) =
              (if length (errs dec) > 0 then (Some (DecodeErrorsErr (errs dec)), dec\<lparr>errs := []\<rparr>)
               else (None, dec));
            dec = dec\<lparr>dmDone := False\<rparr>;
            d = dataPool_Put d dec
        in (err, Iface (TPtr typ) (VPtr (Some val)), d, store))"

section \<open>Rendering the composite error\<close>

text \<open>
  \<^verbatim>\<open>strings.TrimSpace\<close> removes the leading and the trailing white space of a string, as
  \<^verbatim>\<open>unicode.IsSpace\<close> defines it. On the bytes of a Go string that is: the UTF-8 encodings
  of the white-space code points, the six ASCII ones and U+0085, U+00A0, U+1680,
  U+2000 to U+200A, U+2028, U+2029, U+202F, U+205F and U+3000.
\<close>

definition spaceEncodings :: "string list" where
  "spaceEncodings =
     [[CHR 0x09], [CHR 0x0A], [CHR 0x0B], [CHR 0x0C], [CHR 0x0D], [CHR 0x20],
      [CHR 0xC2, CHR 0x85], [CHR 0xC2, CHR 0xA0], [CHR 0xE1, CHR 0x9A, CHR 0x80],
      [CHR 0xE2, CHR 0x80, CHR 0x80], [CHR 0xE2, CHR 0x80, CHR 0x81],
      [CHR 0xE2, CHR 0x80, CHR 0x82], [CHR 0xE2, CHR 0x80, CHR 0x83],
      [CHR 0xE2, CHR 0x80, CHR 0x84], [CHR 0xE2, CHR 0x80, CHR 0x85],
      [CHR 0xE2, CHR 0x80, CHR 0x86], [CHR 0xE2, CHR 0x80, CHR 0x87],
      [CHR 0xE2, CHR 0x80, CHR 0x88], [CHR 0xE2, CHR 0x80, CHR 0x89],
      [CHR 0xE2, CHR 0x80, CHR 0x8A], [CHR 0xE2, CHR 0x80, CHR 0xA8],
      [CHR 0xE2, CHR 0x80, CHR 0xA9], [CHR 0xE2, CHR 0x80, CHR 0xAF],
      [CHR 0xE2, CHR 0x81, CHR 0x9F], [CHR 0xE3, CHR 0x80, CHR 0x80]]"

text \<open>One of the given byte sequences removed from the front of a string, if one is there.\<close>

fun stripOne :: "string list \<Rightarrow> string \<Rightarrow> string option" where
  "stripOne [] s = None"
| "stripOne (e # es) s = (if e \<noteq> [] \<and> prefix e s then Some (drop (length e) s) else stripOne es s)"

lemma stripOne_shorter: "stripOne es s = Some s' \<Longrightarrow> length s' < length s"
  by (induction es) (auto split: if_splits simp: prefix_def)

function stripAll :: "string list \<Rightarrow> string \<Rightarrow> string" where
  "stripAll es s = (case stripOne es s of None \<Rightarrow> s | Some s' \<Rightarrow> stripAll es s')"
  by pat_completeness auto
termination
  by (relation "measure (\<lambda>(es, s). length s)") (auto dest: stripOne_shorter)

declare stripAll.simps [simp del]

text \<open>\<^verbatim>\<open>strings.TrimLeftFunc(s, unicode.IsSpace)\<close>.\<close>

definition TrimLeftSpace :: "string \<Rightarrow> string" where
  "TrimLeftSpace s = stripAll spaceEncodings s"

text \<open>
  \<^verbatim>\<open>strings.TrimRightFunc(s, unicode.IsSpace)\<close>: the same from the end, on the reversed
  string with the reversed encodings.
\<close>

definition TrimRightSpace :: "string \<Rightarrow> string" where
  "TrimRightSpace s = rev (stripAll (map rev spaceEncodings) (rev s))"

definition TrimSpace :: "string \<Rightarrow> string" where
  "TrimSpace s = TrimRightSpace (TrimLeftSpace s)"

text \<open>
  \<^verbatim>\<open>DecodeErrors.Error\<close>. The string constants \<^verbatim>\<open>blank\<close>, \<^verbatim>\<open>fieldNS\<close> and \<^verbatim>\<open>errorText\<close>
  are declared outside these sources and are parameters here. The buffer starts as
  \<^verbatim>\<open>blank\<close> and grows by one \<^verbatim>\<open>WriteString\<close> after the other, entry by entry.
\<close>

definition DecodeErrors_Error :: "string \<Rightarrow> string \<Rightarrow> string \<Rightarrow> DecodeErrors \<Rightarrow> string" where
  "DecodeErrors_Error blank fieldNS errorText d =
     TrimSpace (fold (\<lambda>(k, err) buff. buff @ fieldNS @ k @ errorText @ err @ [CHR 0x0A]) d blank)"

text \<open>
  What the rendering is compared with: the lines joined by a separator
  (\<^verbatim>\<open>strings.Join\<close>), and the bytes that start a white-space rune.
\<close>

fun strings_Join :: "string list \<Rightarrow> string \<Rightarrow> string" where
  "strings_Join [] sep = []"
| "strings_Join [x] sep = x"
| "strings_Join (x # y # xs) sep = x @ sep @ strings_Join (y # xs) sep"

definition startsSpace :: "char \<Rightarrow> bool" where
  "startsSpace c = (c \<in> set (map hd spaceEncodings))"

section \<open>The traversal behind \<^verbatim>\<open>Decode\<close>\<close>

text \<open>
  The methods \<^verbatim>\<open>traverseStruct\<close> and \<^verbatim>\<open>setFieldByType\<close>, the struct cache and the
  scan of the mapping for bracketed indices are not among these sources. This section
  models them from the specification (sections 3 and 4), on the types above.
\<close>

text \<open>
  Modelled from the spec: the zero value a target field has before it is decoded (the
  reflection helper that makes it is not in the sources).
\<close>

fun zero :: "gotype \<Rightarrow> goval" and zero_field :: "StructField \<Rightarrow> goval" where
  "zero TBool = VBool False"
| "zero TInt = VInt 0"
| "zero TString = VString []"
| "zero TTime = VTime []"
| "zero (TIface n) = VIface"
| "zero (TPtr t) = VPtr None"
| "zero (TSlice t) = VSlice []"
| "zero (TMap k v) = VMap []"
| "zero (TStruct n fs) = VStruct (map zero_field fs)"
| "zero_field (StructField n tg an ty) = zero ty"

text \<open>
  The size of a type: the measure by which the traversal below terminates.
\<close>

fun tsize :: "gotype \<Rightarrow> nat" and tsize_field :: "StructField \<Rightarrow> nat" where
  "tsize (TPtr t) = Suc (tsize t)"
| "tsize (TSlice t) = Suc (tsize t)"
| "tsize (TMap k v) = Suc (tsize k + tsize v)"
| "tsize (TStruct n fs) = Suc (Suc (sum_list (map tsize_field fs)))"
| "tsize TBool = 1"
| "tsize TInt = 1"
| "tsize TString = 1"
| "tsize TTime = 1"
| "tsize (TIface n) = 1"
| "tsize_field (StructField n tg an ty) = Suc (tsize ty)"

subsection \<open>Field metadata cache (specification 3 and 4.1)\<close>

text \<open>
  Modelled from the spec: the FieldDescriptor of section 3, one per participating field
  (the cache's own type is not in the sources): where the field sits in the struct value
  (through the embedded structs it was promoted from), its external name, its declared
  type, whether an anonymous embedding produced it, its flattening depth, and whether a
  name collision makes it ambiguous.
\<close>

record FieldDescriptor =
  fd_index :: "nat list"
  fd_name :: string
  fd_type :: gotype
  fd_anonymous :: bool
  fd_depth :: nat
  fd_ambiguous :: bool

text \<open>
  Modelled from the spec: the explicit tag value of a field (4.1 b). Once a tag-name function
  is registered the raw tag is never consulted.
\<close>

definition explicitTag :: "'arg Decoder \<Rightarrow> StructField \<Rightarrow> string option" where
  "explicitTag d f =
     (case structCache_tagFn d of
        Some fn \<Rightarrow> None
      | None \<Rightarrow> map_of (Tag f) (tagName d))"

text \<open>
  Modelled from the spec: the naming resolution order of 4.1: the registered tag-name
  function, else the explicit tag value, else the bare field name in \<open>ModeImplicit\<close>;
  in \<open>ModeExplicit\<close> a field without a tag is skipped.
\<close>

definition resolveName :: "'arg Decoder \<Rightarrow> StructField \<Rightarrow> string option" where
  "resolveName d f =
     (case structCache_tagFn d of
        Some fn \<Rightarrow> Some (fn f)
      | None \<Rightarrow>
          (case map_of (Tag f) (tagName d) of
             Some t \<Rightarrow> Some t
           | None \<Rightarrow> (case mode d of ModeImplicit \<Rightarrow> Some (Name f) | ModeExplicit \<Rightarrow> None)))"

text \<open>
  Modelled from the spec: the scan of a struct's declared fields (4.1 and the embedding
  scenario of section 8). A field yields a descriptor under its resolved name, or none
  when it is skipped. An anonymous field of struct type without an explicit tag is
  flattened, its fields promoted one level deeper with no prefix, and it stays a field
  of the record under its own resolved name, so that the dotted path \<^verbatim>\<open>A.Field\<close> reaches
  the embedded field; an anonymous field that is no struct is ignored.
\<close>

fun collectFields :: "'arg Decoder \<Rightarrow> nat \<Rightarrow> nat list \<Rightarrow> nat \<Rightarrow> StructField list \<Rightarrow> FieldDescriptor list"
  and collectField :: "'arg Decoder \<Rightarrow> nat \<Rightarrow> nat list \<Rightarrow> StructField \<Rightarrow> FieldDescriptor list" where
  "collectFields d depth idx i [] = []"
| "collectFields d depth idx i (f # fs) =
     collectField d depth (idx @ [i]) f @ collectFields d depth idx (Suc i) fs"
| "collectField d depth pos (StructField n tg an ty) =
     (let own =
            (case resolveName d (StructField n tg an ty) of
               None \<Rightarrow> []
             | Some nm \<Rightarrow>
                 [\<lparr>fd_index = pos, fd_name = nm, fd_type = ty, fd_anonymous = (an \<or> 0 < depth),
                   fd_depth = depth, fd_ambiguous = False\<rparr>])
      in if an \<and> explicitTag d (StructField n tg an ty) = None then
           (case ty of
              TStruct n' fs' \<Rightarrow> collectFields d (Suc depth) pos 0 fs' @ own
            | _ \<Rightarrow> [])
         else own)"

text \<open>
  Modelled from the spec: a name collision (4.1): another descriptor of the same record has
  the same resolved name at the same flattening depth.
\<close>

definition collides :: "FieldDescriptor list \<Rightarrow> FieldDescriptor \<Rightarrow> bool" where
  "collides fds fd =
     (length (filter (\<lambda>x. fd_name x = fd_name fd \<and> fd_depth x = fd_depth fd) fds) > 1)"

text \<open>
  Modelled from the spec: the disambiguation of section 8, by which a bare name resolves
  to the outer field: a descriptor is shadowed when another descriptor of the same
  record has the same resolved name at a shallower flattening depth.
\<close>

definition shadowed :: "FieldDescriptor list \<Rightarrow> FieldDescriptor \<Rightarrow> bool" where
  "shadowed fds fd = list_ex (\<lambda>x. fd_name x = fd_name fd \<and> fd_depth x < fd_depth fd) fds"

text \<open>
  Modelled from the spec: \<^verbatim>\<open>resolve(type) -> RecordCacheEntry\<close> of 4.1, the descriptors of a
  record type with the colliding ones marked ambiguous and the shadowed ones left out.
  The cache memoizes it per type; the model recomputes it.
\<close>

definition resolve :: "'arg Decoder \<Rightarrow> gotype \<Rightarrow> FieldDescriptor list" where
  "resolve d t =
     (case t of
        TStruct n fs \<Rightarrow>
          (let fds = collectFields d 0 [] 0 fs
           in map (\<lambda>fd. fd\<lparr>fd_ambiguous := collides fds fd\<rparr>)
                (filter (\<lambda>fd. \<not> shadowed fds fd) fds))
      | _ \<Rightarrow> [])"

subsection \<open>Index collector (specification 4.3)\<close>

text \<open>
  Modelled from the spec: the largest \<^verbatim>\<open>int\<close>, where index arithmetic saturates (4.3).
\<close>

definition maxInt :: int where
  "maxInt = 2 ^ 63 - 1"

text \<open>
  Modelled from the spec: a numeric token is a non-empty run of decimal digits; its value
  saturates at the largest \<^verbatim>\<open>int\<close>.
\<close>

definition isDigit :: "char \<Rightarrow> bool" where
  "isDigit c = (c \<in> set ''0123456789'')"

definition digitVal :: "char \<Rightarrow> int" where
  "digitVal c = int (of_char c) - 48"

definition atoiSat :: "string \<Rightarrow> int" where
  "atoiSat s = min maxInt (foldl (\<lambda>a c. a * 10 + digitVal c) 0 s)"

definition isNumeric :: "string \<Rightarrow> bool" where
  "isNumeric tok = (tok \<noteq> [] \<and> list_all isDigit tok)"

text \<open>
  Modelled from the spec: the bracketed token of a key that begins with the prefix followed
  by \<open>[\<close>, up to the matching \<open>]\<close> (4.3). A key with no closing bracket yields none.
\<close>

definition bracketToken :: "string \<Rightarrow> string \<Rightarrow> string option" where
  "bracketToken pfx k =
     (if prefix (pfx @ ''['') k then
        (let rest = drop (length pfx + 1) k
         in if CHR '']'' \<in> set rest then Some (takeWhile (\<lambda>c. c \<noteq> CHR '']'') rest) else None)
      else None)"

text \<open>
  Modelled from the spec: the IndexKey of section 3 in the source's record \<open>key\<close>: the raw
  token, its integer value when numeric (\<open>-1\<close> otherwise) and the search key
  \<open>prefix[token]\<close>.
\<close>

definition indexKey :: "string \<Rightarrow> string \<Rightarrow> key" where
  "indexKey pfx tok =
     \<lparr>ivalue = (if isNumeric tok then atoiSat tok else - 1), key_value = tok,
      searchValue = pfx @ ''['' @ tok @ '']''\<rparr>"

text \<open>
  Modelled from the spec: no IndexKey is duplicated for the same alias (section 3): each
  token is recorded where it is first met.
\<close>

fun firstOccurrences :: "'a list \<Rightarrow> 'a list \<Rightarrow> 'a list" where
  "firstOccurrences seen [] = []"
| "firstOccurrences seen (x # xs) =
     (if x \<in> set seen then firstOccurrences seen xs else x # firstOccurrences (x # seen) xs)"

text \<open>
  Modelled from the spec: the scan of all keys of the mapping for one prefix (4.3), in the
  order the mapping is visited.
\<close>

definition scanKeys :: "url_Values \<Rightarrow> string \<Rightarrow> key list" where
  "scanKeys vals pfx =
     map (indexKey pfx) (firstOccurrences [] (List.map_filter (bracketToken pfx) (map fst vals)))"

text \<open>
  Modelled from the spec: the sizing of 4.3, \<open>max(numeric index) + 1\<close>, saturating; zero
  when no token is numeric.
\<close>

definition maxLength :: "key list \<Rightarrow> int" where
  "maxLength ks = foldr (\<lambda>k m. max (min maxInt (ivalue k + 1)) m) ks 0"

text \<open>
  Modelled from the spec: the record already kept for a prefix in this decode call, if any.
\<close>

definition findAlias :: "dataMap \<Rightarrow> string \<Rightarrow> recursiveData option" where
  "findAlias m pfx = find (\<lambda>rd. rd_alias rd = pfx) m"

text \<open>
  Modelled from the spec: \<^verbatim>\<open>indicesFor(allKeys, prefix)\<close> of 4.3, in the source's record
  \<open>recursiveData\<close>: a prefix resolved before in the same call reuses its record, a new
  prefix is scanned and its record appended to the context's records.
\<close>

definition indicesFor :: "dataMap \<Rightarrow> url_Values \<Rightarrow> string \<Rightarrow> recursiveData \<times> dataMap" where
  "indicesFor m vals pfx =
     (case findAlias m pfx of
        Some rd \<Rightarrow> (rd, m)
      | None \<Rightarrow>
          (let ks = scanKeys vals pfx;
               rd = \<lparr>rd_alias = pfx, sliceLen = maxLength ks, keys = ks\<rparr>
           in (rd, m @ [rd])))"

subsection \<open>Structural traverser (specification 4.2 and 4.4)\<close>

text \<open>
  Modelled from the spec: the state a traversal threads: the context, the store of output
  maps, and a ghost log, not part of the program, of the custom decode functions invoked
  (the path and the type each was invoked for).
\<close>

record 'arg run =
  run_dec :: "'arg decoder"
  run_store :: goValuesStore
  run_calls :: "(string \<times> gotype) list"

text \<open>
  Modelled from the spec: a per-field error recorded under the current path (4.4, 7).
\<close>

definition setError :: "'arg run \<Rightarrow> string \<Rightarrow> string \<Rightarrow> 'arg run" where
  "setError r ns msg = r\<lparr>run_dec := (run_dec r)\<lparr>errs := map_store ns msg (errs (run_dec r))\<rparr>\<rparr>"

text \<open>
  Modelled from the spec: an assigned value mirrored into the output map the context
  refers to, under its path (4.4, last item).
\<close>

definition mirror :: "'arg run \<Rightarrow> string \<Rightarrow> goval \<Rightarrow> 'arg run" where
  "mirror r ns x =
     (case goValues (run_dec r) of
        None \<Rightarrow> r
      | Some a \<Rightarrow> r\<lparr>run_store := (run_store r)(a := map_store ns x (run_store r a))\<rparr>)"

text \<open>
  Modelled from the spec: the raw string of an entry is the first of its values (section 6,
  single-value semantics); the specification does not say what an entry with no value
  gives, the model takes the empty string.
\<close>

definition rawValue :: "string list \<Rightarrow> string" where
  "rawValue vs = (case vs of [] \<Rightarrow> [] | s # rest \<Rightarrow> s)"

text \<open>
  Modelled from the spec: the path builder of 4.2: a field name joined to the record's path
  with the configured prefix and suffix (by default \<open>.\<close> and nothing), nothing added at
  the top level; an index appended in brackets.
\<close>

definition extendPath :: "'arg Decoder \<Rightarrow> string \<Rightarrow> string \<Rightarrow> string" where
  "extendPath d ns name =
     (if ns = [] then name else ns @ namespacePrefix d @ name @ namespaceSuffix d)"

definition indexPath :: "string \<Rightarrow> string \<Rightarrow> string" where
  "indexPath ns tok = ns @ ''['' @ tok @ '']''"

text \<open>
  Modelled from the spec: reading and writing the field a descriptor stands for, through
  the embedded structs on its way.
\<close>

fun getField :: "nat list \<Rightarrow> goval list \<Rightarrow> goval option" where
  "getField [] vs = None"
| "getField [i] vs = (if i < length vs then Some (vs ! i) else None)"
| "getField (i # j # js) vs =
     (if i < length vs then
        (case vs ! i of VStruct ws \<Rightarrow> getField (j # js) ws | _ \<Rightarrow> None)
      else None)"

fun setField :: "nat list \<Rightarrow> goval \<Rightarrow> goval list \<Rightarrow> goval list" where
  "setField [] x vs = vs"
| "setField [i] x vs = vs[i := x]"
| "setField (i # j # js) x vs =
     (if i < length vs then
        (case vs ! i of VStruct ws \<Rightarrow> vs[i := VStruct (setField (j # js) x ws)] | _ \<Rightarrow> vs)
      else vs)"

text \<open>
  Modelled from the spec: a custom decode function invoked with the raw string and the
  decode argument (4.4): it owns the assignment, its error is recorded under the path.
  The invocation is logged.
\<close>

definition applyCustom ::
  "'arg DecodeFunc \<Rightarrow> 'arg \<Rightarrow> gotype \<Rightarrow> string \<Rightarrow> string \<Rightarrow> goval \<Rightarrow> 'arg run
     \<Rightarrow> 'arg run \<times> goval \<times> bool" where
  "applyCustom cf a t raw ns v r =
     (let r1 = r\<lparr>run_calls := run_calls r @ [(ns, t)]\<rparr>
      in case cf raw a of
           Inl e \<Rightarrow> (setError r1 ns e, v, False)
         | Inr x \<Rightarrow> (mirror r1 ns x, x, True))"

text \<open>
  Modelled from the spec: the custom function that applies at a path (4.4): one registered
  for the declared type, when the mapping has an entry at exactly this path.
\<close>

definition customFor ::
  "'arg Decoder \<Rightarrow> 'arg run \<Rightarrow> gotype \<Rightarrow> string \<Rightarrow> ('arg DecodeFunc \<times> string \<times> 'arg) option" where
  "customFor d r t ns =
     (case customTypeFuncs d t of
        None \<Rightarrow> None
      | Some cf \<Rightarrow>
          (case map_of (dec_values (run_dec r)) ns of
             None \<Rightarrow> None
           | Some vs \<Rightarrow>
               (case decodeFuncArgument (run_dec r) of
                  None \<Rightarrow> None
                | Some a \<Rightarrow> Some (cf, rawValue vs, a))))"

text \<open>
  Modelled from the spec: the scalar case of 4.4, with the primitive conversion \<open>cv\<close> a
  parameter (the specification treats it as a black box): an absent path leaves the
  value, a present one is decoded by the custom function for the type or by the
  conversion, and a failure is recorded under the path.
\<close>

definition scalar ::
  "(gotype \<Rightarrow> string \<Rightarrow> string + goval) \<Rightarrow> 'arg Decoder \<Rightarrow> gotype \<Rightarrow> goval \<Rightarrow> string \<Rightarrow> 'arg run
     \<Rightarrow> 'arg run \<times> goval \<times> bool" where
  "scalar cv d t v ns r =
     (case map_of (dec_values (run_dec r)) ns of
        None \<Rightarrow> (r, v, False)
      | Some vs \<Rightarrow>
          (case customFor d r t ns of
             Some (cf, raw, a) \<Rightarrow> applyCustom cf a t raw ns v r
           | None \<Rightarrow>
               (case cv t (rawValue vs) of
                  Inl e \<Rightarrow> (setError r ns e, v, False)
                | Inr x \<Rightarrow> (mirror r ns x, x, True))))"

text \<open>
  Modelled from the spec: the message of the bound-exceeded error (its text is not
  specified).
\<close>

definition errArraySize :: string where
  "errArraySize = ''array index at or above the maximum array size''"

lemma collect_tsize:
  "fd \<in> set (collectFields d depth idx i fs) \<Longrightarrow> tsize (fd_type fd) < Suc (sum_list (map tsize_field fs))"
  "fd \<in> set (collectField d depth pos f) \<Longrightarrow> tsize (fd_type fd) < tsize_field f"
proof (induction d depth idx i fs and d depth pos f arbitrary: fd and fd
      rule: collectFields_collectField.induct)
  case (1 d depth idx i)
  then show ?case by simp
next
  case (2 d depth idx i f fs)
  from 2(3) have "fd \<in> set (collectField d depth (idx @ [i]) f) \<or>
      fd \<in> set (collectFields d depth idx (Suc i) fs)"
    by simp
  then show ?case
  proof
    assume "fd \<in> set (collectField d depth (idx @ [i]) f)"
    then have "tsize (fd_type fd) < tsize_field f" by (rule 2(1))
    then show ?thesis by simp
  next
    assume "fd \<in> set (collectFields d depth idx (Suc i) fs)"
    then have "tsize (fd_type fd) < Suc (sum_list (map tsize_field fs))" by (rule 2(2))
    then show ?thesis by simp
  qed
next
  case (3 d depth pos n tg an ty)
  define own where "own =
    (case resolveName d (StructField n tg an ty) of
       None \<Rightarrow> []
     | Some nm \<Rightarrow>
         [\<lparr>fd_index = pos, fd_name = nm, fd_type = ty, fd_anonymous = (an \<or> 0 < depth),
           fd_depth = depth, fd_ambiguous = False\<rparr>])"
  have own: "x \<in> set own \<Longrightarrow> fd_type x = ty" for x
    by (auto simp: own_def split: option.splits)
  show ?case
  proof (cases "an \<and> explicitTag d (StructField n tg an ty) = None")
    case True
    show ?thesis
    proof (cases ty)
      case (TStruct n' fs')
      from 3(2) True TStruct
      have "fd \<in> set (collectFields d (Suc depth) pos 0 fs') \<or> fd \<in> set own"
        by (auto simp: own_def)
      then show ?thesis
      proof
        assume "fd \<in> set (collectFields d (Suc depth) pos 0 fs')"
        from 3(1) [OF own_def True TStruct this] show ?thesis
          using TStruct by simp
      next
        assume "fd \<in> set own"
        then show ?thesis using own by simp
      qed
    qed (use 3(2) True in auto)
  next
    case False
    with 3(2) have "fd \<in> set own" by (auto simp: own_def)
    then show ?thesis using own by simp
  qed
qed

lemma resolve_tsize: "fd \<in> set (resolve d t) \<Longrightarrow> tsize (fd_type fd) < tsize t"
  by (cases t) (auto simp: resolve_def Let_def dest: collect_tsize(1))

text \<open>
  Modelled from the spec: \<^verbatim>\<open>traverse(targetValue, targetType, currentPath)\<close> of 4.4, the dispatch
  by kind. It returns the state, the value, and whether anything was written.
  \<^item> Pointer: the pointee is decoded from its value, or from a zero value when the
    pointer is nil, and allocated only if something was written.
  \<^item> Slice: the indices under the path are collected; with none the value is left; an
    index at or above the decoder's maximum is an error for the field; otherwise the
    slice grows to the discovered size and each discovered index is decoded at
    \<open>path[index]\<close>.
  \<^item> Map: each discovered key is decoded into a fresh element at \<open>path[key]\<close> and
    inserted under the key, converted when the key type is not string.
  \<^item> Record: each descriptor that is not ambiguous is decoded at its extended path, by
    the custom function that applies there or else by recursion; a field absent from
    the value is decoded from its zero value. An embedded record is decoded twice:
    through its promoted fields at the record's own path, and as a field at the path
    extended by its own name.
  \<^item> Anything else is a scalar.
  Values of several entries for a slice addressed without brackets (section 6) are not
  modelled, nor are arrays.
\<close>

function traverse ::
  "(gotype \<Rightarrow> string \<Rightarrow> string + goval) \<Rightarrow> 'arg Decoder \<Rightarrow> gotype \<Rightarrow> goval \<Rightarrow> string \<Rightarrow> 'arg run
     \<Rightarrow> 'arg run \<times> goval \<times> bool" where
  "traverse cv d TBool v ns r = scalar cv d TBool v ns r"
| "traverse cv d TInt v ns r = scalar cv d TInt v ns r"
| "traverse cv d TString v ns r = scalar cv d TString v ns r"
| "traverse cv d TTime v ns r = scalar cv d TTime v ns r"
| "traverse cv d (TIface n) v ns r = scalar cv d (TIface n) v ns r"
| "traverse cv d (TPtr t) v ns r =
     (let (r', x, set') = traverse cv d t (case v of VPtr (Some y) \<Rightarrow> y | _ \<Rightarrow> zero t) ns r
      in if set' then (r', VPtr (Some x), True) else (r', v, False))"
| "traverse cv d (TSlice t) v ns r =
     (let (rd, m) = indicesFor (dm (run_dec r)) (dec_values (run_dec r)) ns;
          r1 = r\<lparr>run_dec := (run_dec r)\<lparr>dm := m\<rparr>\<rparr>;
          nks = filter (\<lambda>k. isNumeric (key_value k)) (keys rd)
      in if nks = [] then (r1, v, False)
         else if list_ex (\<lambda>k. maxArraySize d \<le> ivalue k) nks then
           (setError r1 ns errArraySize, v, False)
         else
           let xs = (case v of VSlice ys \<Rightarrow> ys | _ \<Rightarrow> []);
               xs = xs @ replicate (nat (sliceLen rd) - length xs) (zero t);
               (r2, xs') =
                 fold (\<lambda>k (r, xs).
                         let i = nat (ivalue k)
                         in if i < length xs then
                              let (r', x, set') = traverse cv d t (xs ! i) (indexPath ns (key_value k)) r
                              in (r', xs[i := x])
                            else (r, xs))
                   nks (r1, xs)
           in (r2, VSlice xs', True))"
| "traverse cv d (TMap kt vt) v ns r =
     (let (rd, m) = indicesFor (dm (run_dec r)) (dec_values (run_dec r)) ns;
          r1 = r\<lparr>run_dec := (run_dec r)\<lparr>dm := m\<rparr>\<rparr>
      in if keys rd = [] then (r1, v, False)
         else
           let es = (case v of VMap ys \<Rightarrow> ys | _ \<Rightarrow> []);
               (r2, es') =
                 fold (\<lambda>k (r, es).
                         let path = indexPath ns (key_value k);
                             (r', x, set') = traverse cv d vt (zero vt) path r
                         in case (if kt = TString then Inr (VString (key_value k))
                                  else cv kt (key_value k)) of
                              Inl e \<Rightarrow> (setError r' path e, es)
                            | Inr kv \<Rightarrow> (r', map_store kv x es))
                   (keys rd) (r1, es)
           in (r2, VMap es', True))"
| "traverse cv d (TStruct n fs) v ns r =
     (let vs = (case v of VStruct ys \<Rightarrow> ys | _ \<Rightarrow> map zero_field fs);
          (r', vs', set') =
            fold (\<lambda>fd (r, vs, set').
                    if fd_ambiguous fd then (r, vs, set')
                    else
                      let x0 = (case getField (fd_index fd) vs of
                                  None \<Rightarrow> zero (fd_type fd)
                                | Some y \<Rightarrow> y);
                          path = extendPath d ns (fd_name fd);
                          (r', x, set'') =
                            (case customFor d r (fd_type fd) path of
                               Some (cf, raw, a) \<Rightarrow> applyCustom cf a (fd_type fd) raw path x0 r
                             | None \<Rightarrow> traverse cv d (fd_type fd) x0 path r)
                      in (r', setField (fd_index fd) x vs, set' \<or> set''))
              (resolve d (TStruct n fs)) (r, vs, False)
      in (r', VStruct vs', set'))"
  by pat_completeness auto
termination
  by (relation "measure (\<lambda>(cv, d, t, v, ns, r). tsize t)") (auto dest: resolve_tsize)

text \<open>
  Modelled from the spec: the two methods \<^verbatim>\<open>Decode\<close> calls, as instances of the traversal
  started on the context and the store with an empty log.
\<close>

definition traverseStruct_spec ::
  "(gotype \<Rightarrow> string \<Rightarrow> string + goval) \<Rightarrow> 'arg traverseStruct_t" where
  "traverseStruct_spec cv d dec val typ' ns store =
     (let (r, v, set') = traverse cv d typ' val ns \<lparr>run_dec = dec, run_store = store, run_calls = []\<rparr>
      in (run_dec r, v, run_store r))"

definition setFieldByType_spec ::
  "(gotype \<Rightarrow> string \<Rightarrow> string + goval) \<Rightarrow> 'arg setFieldByType_t" where
  "setFieldByType_spec cv d dec val typ' b ns idx store =
     (let (r, v, set') = traverse cv d typ' val ns \<lparr>run_dec = dec, run_store = store, run_calls = []\<rparr>
      in (run_dec r, v, run_store r))"

text \<open>
  Modelled from the spec: a primitive conversion for the examples: strings convert to
  themselves, every other kind fails.
\<close>

definition string_conv :: "gotype \<Rightarrow> string \<Rightarrow> string + goval" where
  "string_conv t s = (if t = TString then Inr (VString s) else Inl ''not a string field'')"

text \<open>
  Modelled from the spec: the record case of 4.4 for one descriptor, the step the
  traversal folds over the descriptors of a record (\<open>traverse_struct\<close> below shows it is
  that step).
\<close>

definition fieldStep ::
  "(gotype \<Rightarrow> string \<Rightarrow> string + goval) \<Rightarrow> 'arg Decoder \<Rightarrow> string \<Rightarrow> FieldDescriptor
     \<Rightarrow> 'arg run \<times> goval list \<times> bool \<Rightarrow> 'arg run \<times> goval list \<times> bool" where
  "fieldStep cv d ns fd st =
     (case st of (r, vs, set') \<Rightarrow>
        if fd_ambiguous fd then (r, vs, set')
        else
          let x0 = (case getField (fd_index fd) vs of
                      None \<Rightarrow> zero (fd_type fd)
                    | Some y \<Rightarrow> y);
              path = extendPath d ns (fd_name fd);
              (r', x, set'') =
                (case customFor d r (fd_type fd) path of
                   Some (cf, raw, a) \<Rightarrow> applyCustom cf a (fd_type fd) raw path x0 r
                 | None \<Rightarrow> traverse cv d (fd_type fd) x0 path r)
          in (r', setField (fd_index fd) x vs, set' \<or> set''))"

text \<open>
  Modelled from the spec: the slice case of 4.4 for one discovered index, the step the
  traversal folds over the numeric keys (\<open>traverse_slice\<close> below).
\<close>

definition elemStep ::
  "(gotype \<Rightarrow> string \<Rightarrow> string + goval) \<Rightarrow> 'arg Decoder \<Rightarrow> gotype \<Rightarrow> string \<Rightarrow> key
     \<Rightarrow> 'arg run \<times> goval list \<Rightarrow> 'arg run \<times> goval list" where
  "elemStep cv d t ns k st =
     (case st of (r, xs) \<Rightarrow>
        let i = nat (ivalue k)
        in if i < length xs then
             let (r', x, set') = traverse cv d t (xs ! i) (indexPath ns (key_value k)) r
             in (r', xs[i := x])
           else (r, xs))"

text \<open>
  Modelled from the spec: the map case of 4.4 for one discovered key, the step the traversal
  folds over the keys (\<open>traverse_map\<close> below).
\<close>

definition entryStep ::
  "(gotype \<Rightarrow> string \<Rightarrow> string + goval) \<Rightarrow> 'arg Decoder \<Rightarrow> gotype \<Rightarrow> gotype \<Rightarrow> string \<Rightarrow> key
     \<Rightarrow> 'arg run \<times> (goval \<times> goval) list \<Rightarrow> 'arg run \<times> (goval \<times> goval) list" where
  "entryStep cv d kt vt ns k st =
     (case st of (r, es) \<Rightarrow>
        let path = indexPath ns (key_value k);
            (r', x, set') = traverse cv d vt (zero vt) path r
        in case (if kt = TString then Inr (VString (key_value k)) else cv kt (key_value k)) of
             Inl e \<Rightarrow> (setError r' path e, es)
           | Inr kv \<Rightarrow> (r', map_store kv x es))"

text \<open>
  What a traversal may do to the state it is given, as far as custom functions go: the
  mapping and the decode argument stay, and the log grows only by invocations at paths
  that are keys of the mapping.
\<close>

definition extends :: "'arg run \<Rightarrow> 'arg run \<Rightarrow> bool" where
  "extends r r' =
     (dec_values (run_dec r') = dec_values (run_dec r) \<and>
      decodeFuncArgument (run_dec r') = decodeFuncArgument (run_dec r) \<and>
      (\<exists>new. run_calls r' = run_calls r @ new \<and>
         (\<forall>c \<in> set new. fst c \<in> fst ` set (dec_values (run_dec r)))))"

section \<open>Properties\<close>

text \<open>
  C9. The message of an invalid-target error has three forms: \<open>form: Decode(nil)\<close> when
  no type was recorded, \<open>form: Decode(non-pointer T)\<close> when the recorded type \<open>T\<close> is not a
  pointer type, \<open>form: Decode(nil T)\<close> when it is a pointer type.
\<close>

theorem InvalidDecoderError_Error_cases:
  "InvalidDecoderError_Error None = ''form: Decode(nil)'' \<and>
   (Kind t \<noteq> KPtr \<longrightarrow>
      InvalidDecoderError_Error (Some t) = ''form: Decode(non-pointer '' @ type_String t @ '')'') \<and>
   (Kind t = KPtr \<longrightarrow>
      InvalidDecoderError_Error (Some t) = ''form: Decode(nil '' @ type_String t @ '')'')"
  by (simp add: InvalidDecoderError_Error_def)

theorem InvalidDecoderError_Error_witness:
  "Kind TInt \<noteq> KPtr \<and> Kind (TPtr (TStruct ''main.B'' [])) = KPtr \<and>
   InvalidDecoderError_Error (Some TInt) = ''form: Decode(non-pointer int)'' \<and>
   InvalidDecoderError_Error (Some (TPtr (TStruct ''main.B'' []))) = ''form: Decode(nil *main.B)''"
  using InvalidDecoderError_Error_cases [of TInt]
    InvalidDecoderError_Error_cases [of "TPtr (TStruct ''main.B'' [])"]
  by simp

text \<open>
  C2. A target that is not a non-nil pointer (the nil interface, a non-pointer value, a
  typed nil pointer) makes \<open>Decode\<close> return the invalid-target error for the target's type
  at once: neither traversal is run, and the target, the decoder with its pool and the
  output maps are as before. The message names the type whenever there is one.
\<close>

theorem Decode_invalid_target:
  assumes "val_Kind v \<noteq> KPtr \<or> val_IsNil v"
  shows "Decode traverseStruct setFieldByType d v vals argument collectGoValues store =
           (Some (InvalidDecoderError (reflect_TypeOf v)), v, d, store) \<and>
         (case reflect_TypeOf v of
            None \<Rightarrow> InvalidDecoderError_Error (reflect_TypeOf v) = ''form: Decode(nil)''
          | Some t \<Rightarrow>
              (\<exists>pre. InvalidDecoderError_Error (reflect_TypeOf v) = pre @ type_String t @ '')''))"
  using assms
  by (cases v) (auto simp: Decode_def InvalidDecoderError_Error_def)

theorem Decode_invalid_target_witness:
  "Decode (\<lambda>d dec val typ ns store. (dec, val, store))
     (\<lambda>d dec val typ b ns i store. (dec, val, store))
     (NewDecoder :: unit Decoder) NilIface [(''A'', [''1''])] ()
     [Some 0] (\<lambda>a. []) =
     (Some (InvalidDecoderError None), NilIface, NewDecoder, (\<lambda>a. [])) \<and>
   Decode (\<lambda>d dec val typ ns store. (dec, val, store))
     (\<lambda>d dec val typ b ns i store. (dec, val, store))
     (NewDecoder :: unit Decoder) (Iface TInt (VInt 5))
     [(''A'', [''1''])] () [] (\<lambda>a. []) =
     (Some (InvalidDecoderError (Some TInt)), Iface TInt (VInt 5), NewDecoder, (\<lambda>a. [])) \<and>
   Decode (\<lambda>d dec val typ ns store. (dec, val, store))
     (\<lambda>d dec val typ b ns i store. (dec, val, store))
     (NewDecoder :: unit Decoder) (Iface (TPtr TInt) (VPtr None))
     [(''A'', [''1''])] () [] (\<lambda>a. []) =
     (Some (InvalidDecoderError (Some (TPtr TInt))), Iface (TPtr TInt) (VPtr None), NewDecoder,
      (\<lambda>a. []))"
  using Decode_invalid_target [of NilIface "\<lambda>d dec val typ ns store. (dec, val, store)"
      "\<lambda>d dec val typ b ns i store. (dec, val, store)" "NewDecoder :: unit Decoder"
      "[(''A'', [''1''])]" "()" "[Some 0]" "\<lambda>a. []"]
    Decode_invalid_target [of "Iface TInt (VInt 5)" "\<lambda>d dec val typ ns store. (dec, val, store)"
      "\<lambda>d dec val typ b ns i store. (dec, val, store)" "NewDecoder :: unit Decoder" "[(''A'', [''1''])]" "()" "[]" "\<lambda>a. []"]
    Decode_invalid_target [of "Iface (TPtr TInt) (VPtr None)" "\<lambda>d dec val typ ns store. (dec, val, store)"
      "\<lambda>d dec val typ b ns i store. (dec, val, store)" "NewDecoder :: unit Decoder" "[(''A'', [''1''])]" "()" "[]" "\<lambda>a. []"]
  by simp

subsection \<open>The pool across a call\<close>

lemma Decode_acquire_pool:
  "set (dataPool (snd (Decode_acquire d vals argument))) \<subseteq> set (dataPool d)"
  by (cases "dataPool d") (auto simp: Decode_acquire_def dataPool_Get_def)

lemma Decode_traverse_decoder:
  assumes "Decode_traverse traverseStruct setFieldByType d v vals argument collectGoValues store =
       (dec, ty, x, d', store')"
  shows "d' = snd (Decode_acquire d vals argument)"
  using assms by (simp add: Decode_traverse_def split_def Let_def)

lemma Decode_pool_after:
  assumes "\<not> (val_Kind v \<noteq> KPtr \<or> val_IsNil v)"
    and "Decode_traverse traverseStruct setFieldByType d v vals argument collectGoValues store =
       (dec, ty, x, d', store')"
  shows "dataPool (fst (snd (snd
      (Decode traverseStruct setFieldByType d v vals argument collectGoValues store)))) =
     (if errs dec = [] then dec else dec\<lparr>errs := []\<rparr>)\<lparr>dmDone := False\<rparr> # dataPool d'"
  using assms by (simp add: Decode_def dataPool_Put_def)

text \<open>
  C3. On a valid target, with every pooled context free of recorded errors (as
  \<open>NewDecoder\<close> starts and as \<open>Decode\<close> leaves the pool), the traversal starts from an
  empty error set, and \<open>Decode\<close> returns the composite error holding the errors recorded
  by the traversal exactly when there is at least one, and nil otherwise.
\<close>

theorem Decode_composite_error_iff:
  assumes "\<not> (val_Kind v \<noteq> KPtr \<or> val_IsNil v)"
    and "\<forall>c \<in> set (dataPool d). errs c = []"
  shows "errs (fst (Decode_acquire d vals argument)) = [] \<and>
         fst (Decode traverseStruct setFieldByType d v vals argument collectGoValues store) =
           (let dec = fst (Decode_traverse traverseStruct setFieldByType d v vals argument
                             collectGoValues store)
            in if errs dec = [] then None else Some (DecodeErrorsErr (errs dec))) \<and>
         (\<forall>c \<in> set (dataPool (fst (snd (snd
              (Decode traverseStruct setFieldByType d v vals argument collectGoValues store))))).
            errs c = [])"
proof -
  have acq: "errs (fst (Decode_acquire d vals argument)) = []"
    using assms(2)
    by (cases "dataPool d") (simp_all add: Decode_acquire_def dataPool_Get_def dataPool_New_def)
  obtain dec ty x d' store' where tr:
    "Decode_traverse traverseStruct setFieldByType d v vals argument collectGoValues store =
       (dec, ty, x, d', store')"
    by (cases "Decode_traverse traverseStruct setFieldByType d v vals argument collectGoValues store")
  have "set (dataPool d') \<subseteq> set (dataPool d)"
    using Decode_traverse_decoder [OF tr] Decode_acquire_pool [of d vals argument] by simp
  then have old: "\<forall>c \<in> set (dataPool d'). errs c = []"
    using assms(2) by blast
  have res: "fst (Decode traverseStruct setFieldByType d v vals argument collectGoValues store) =
      (if errs dec = [] then None else Some (DecodeErrorsErr (errs dec)))"
    using assms(1) tr by (simp add: Decode_def)
  have inv: "\<forall>c \<in> set (dataPool (fst (snd (snd
      (Decode traverseStruct setFieldByType d v vals argument collectGoValues store))))). errs c = []"
    unfolding Decode_pool_after [OF assms(1) tr] using old by simp
  show ?thesis
    using acq res inv by (simp add: tr)
qed

theorem Decode_composite_error_iff_witness:
  "fst (Decode (\<lambda>d dec val typ ns store. (dec\<lparr>errs := [(''Age'', ''bad'')]\<rparr>, val, store))
          (\<lambda>d dec val typ b ns i store. (dec, val, store)) (NewDecoder :: unit Decoder)
          (Iface (TPtr (TStruct ''main.S'' [])) (VPtr (Some (VStruct [])))) [] () [] (\<lambda>a. [])) =
     Some (DecodeErrorsErr [(''Age'', ''bad'')]) \<and>
   fst (Decode (\<lambda>d dec val typ ns store. (dec, val, store))
          (\<lambda>d dec val typ b ns i store. (dec, val, store)) (NewDecoder :: unit Decoder)
          (Iface (TPtr (TStruct ''main.S'' [])) (VPtr (Some (VStruct [])))) [] () [] (\<lambda>a. [])) =
     None"
proof -
  have v: "\<not> (val_Kind (Iface (TPtr (TStruct ''main.S'' [])) (VPtr (Some (VStruct [])))) \<noteq> KPtr \<or>
     val_IsNil (Iface (TPtr (TStruct ''main.S'' [])) (VPtr (Some (VStruct [])))))"
    by simp
  have p: "\<forall>c \<in> set (dataPool (NewDecoder :: unit Decoder)). errs c = []"
    by (simp add: NewDecoder_def)
  show ?thesis
    using Decode_composite_error_iff [OF v p, of "[]" "()"
      "\<lambda>d dec val typ ns store. (dec\<lparr>errs := [(''Age'', ''bad'')]\<rparr>, val, store)"
      "\<lambda>d dec val typ b ns i store. (dec, val, store)" "[]" "\<lambda>a. []"]
    Decode_composite_error_iff [OF v p, of "[]" "()"
      "\<lambda>d dec val typ ns store. (dec, val, store)"
      "\<lambda>d dec val typ b ns i store. (dec, val, store)" "[]" "\<lambda>a. []"]
    by (simp add: NewDecoder_def Decode_traverse_def Decode_acquire_def dataPool_Get_def
      dataPool_New_def timeType_def)
qed

text \<open>
  C10. The output map a caller supplies is attached to the context only on the branch
  for a target whose element is a struct other than \<open>time.Time\<close>, where the traversal
  gets the context with \<open>goValues\<close> set to the first supplied map. For every other target
  the supplied argument is never read: the call's whole outcome is the one of the same
  call with no output map supplied.
\<close>

theorem Decode_sink_only_for_struct:
  "(Kind (fst (val_Elem v)) = KStruct \<and> fst (val_Elem v) \<noteq> timeType \<and> collectGoValues \<noteq> [] \<longrightarrow>
      Decode_traverse traverseStruct setFieldByType d v vals argument collectGoValues store =
        (let (dec, d') = Decode_acquire d vals argument;
             (dec', val', store') =
               traverseStruct d' (dec\<lparr>goValues := hd collectGoValues\<rparr>) (snd (val_Elem v))
                 (fst (val_Elem v)) [] store
         in (dec', fst (val_Elem v), val', d', store'))) \<and>
   (\<not> (Kind (fst (val_Elem v)) = KStruct \<and> fst (val_Elem v) \<noteq> timeType) \<longrightarrow>
      Decode traverseStruct setFieldByType d v vals argument collectGoValues store =
        Decode traverseStruct setFieldByType d v vals argument [] store \<and>
      Decode_traverse traverseStruct setFieldByType d v vals argument collectGoValues store =
        (let (dec, d') = Decode_acquire d vals argument;
             (dec', val', store') =
               setFieldByType d' dec (snd (val_Elem v)) (fst (val_Elem v)) False [] 0 store
         in (dec', fst (val_Elem v), val', d', store')))"
  by (cases collectGoValues)
     (simp_all add: Decode_def Decode_traverse_def split_def Let_def hd_conv_nth)

theorem Decode_sink_only_for_struct_witness:
  "snd (snd (snd (snd (Decode_traverse
      (\<lambda>d dec val typ ns store.
         (dec, val, case goValues dec of None \<Rightarrow> store | Some a \<Rightarrow> store(a := [(ns, val)])))
      (\<lambda>d dec val typ b ns i store.
         (dec, val, case goValues dec of None \<Rightarrow> store | Some a \<Rightarrow> store(a := [(ns, val)])))
      (NewDecoder :: unit Decoder)
      (Iface (TPtr (TStruct ''main.S'' [])) (VPtr (Some (VStruct [])))) [] () [Some 0]
      (\<lambda>a. []))))) 0 = [([], VStruct [])] \<and>
   Decode
      (\<lambda>d dec val typ ns store.
         (dec, val, case goValues dec of None \<Rightarrow> store | Some a \<Rightarrow> store(a := [(ns, val)])))
      (\<lambda>d dec val typ b ns i store.
         (dec, val, case goValues dec of None \<Rightarrow> store | Some a \<Rightarrow> store(a := [(ns, val)])))
      (NewDecoder :: unit Decoder)
      (Iface (TPtr TTime) (VPtr (Some (VTime ''noon'')))) [] () [Some 0] (\<lambda>a. []) =
   Decode
      (\<lambda>d dec val typ ns store.
         (dec, val, case goValues dec of None \<Rightarrow> store | Some a \<Rightarrow> store(a := [(ns, val)])))
      (\<lambda>d dec val typ b ns i store.
         (dec, val, case goValues dec of None \<Rightarrow> store | Some a \<Rightarrow> store(a := [(ns, val)])))
      (NewDecoder :: unit Decoder)
      (Iface (TPtr TTime) (VPtr (Some (VTime ''noon'')))) [] () [] (\<lambda>a. [])"
  using Decode_sink_only_for_struct [of "Iface (TPtr (TStruct ''main.S'' [])) (VPtr (Some (VStruct [])))"
      "[Some 0]"
      "\<lambda>d dec val typ ns store.
         (dec, val, case goValues dec of None \<Rightarrow> store | Some a \<Rightarrow> store(a := [(ns, val)]))"
      "\<lambda>d dec val typ b ns i store.
         (dec, val, case goValues dec of None \<Rightarrow> store | Some a \<Rightarrow> store(a := [(ns, val)]))"
      "NewDecoder :: unit Decoder" "[]" "()" "\<lambda>a. []"]
    Decode_sink_only_for_struct [of "Iface (TPtr TTime) (VPtr (Some (VTime ''noon'')))"
      "[Some 0]"
      "\<lambda>d dec val typ ns store.
         (dec, val, case goValues dec of None \<Rightarrow> store | Some a \<Rightarrow> store(a := [(ns, val)]))"
      "\<lambda>d dec val typ b ns i store.
         (dec, val, case goValues dec of None \<Rightarrow> store | Some a \<Rightarrow> store(a := [(ns, val)]))"
      "NewDecoder :: unit Decoder" "[]" "()" "\<lambda>a. []"]
  by (simp add: timeType_def Decode_acquire_def dataPool_Get_def dataPool_New_def NewDecoder_def)

subsection \<open>Trimming and joining\<close>

lemma stripAll_None: "stripOne es s = None \<Longrightarrow> stripAll es s = s"
  by (subst stripAll.simps) simp

lemma stripAll_Some: "stripOne es s = Some s' \<Longrightarrow> stripAll es s = stripAll es s'"
  by (subst stripAll.simps) simp

lemma TrimRightSpace_newline: "TrimRightSpace (s @ [CHR 0x0A]) = TrimRightSpace s"
proof -
  have "stripOne (map rev spaceEncodings) (CHR 0x0A # rev s) = Some (rev s)"
    by (simp add: spaceEncodings_def)
  then show ?thesis
    by (simp add: TrimRightSpace_def stripAll_Some)
qed

lemma stripOne_None: "\<forall>e \<in> set es. e \<noteq> [] \<longrightarrow> hd e \<noteq> c \<Longrightarrow> stripOne es (c # s) = None"
  by (induction es) (auto simp: prefix_Cons)

lemma TrimLeftSpace_keep: "\<not> startsSpace c \<Longrightarrow> TrimLeftSpace (c # s) = c # s"
  unfolding TrimLeftSpace_def startsSpace_def
  by (rule stripAll_None, rule stripOne_None) auto

lemma fold_WriteString:
  "fold (\<lambda>(k, err) buff. buff @ fieldNS @ k @ errorText @ err @ [CHR 0x0A]) d b =
     b @ concat (map (\<lambda>(k, err). (fieldNS @ k @ errorText @ err) @ [CHR 0x0A]) d)"
  by (induction d arbitrary: b) (auto simp: split_def)

lemma concat_lines_Join:
  "xs \<noteq> [] \<Longrightarrow> concat (map (\<lambda>l. l @ sep) xs) = strings_Join xs sep @ sep"
  by (induction xs sep rule: strings_Join.induct) auto

lemma stripAll_done: "stripOne es (stripAll es s) = None"
proof (induction es s rule: stripAll.induct)
  case (1 es s)
  then show ?case
    by (cases "stripOne es s") (simp_all add: stripAll_None stripAll_Some)
qed

lemma stripOne_Some_prefix:
  "stripOne es s = Some s' \<Longrightarrow> \<exists>e \<in> set es. s = e @ s'"
  by (induction es) (auto split: if_splits simp: prefix_def)

lemma stripOne_None_iff: "stripOne es s = None \<longleftrightarrow> (\<forall>e \<in> set es. e = [] \<or> \<not> prefix e s)"
  by (induction es) auto

lemma stripAll_removed: "\<exists>ws. set ws \<subseteq> set es \<and> s = concat ws @ stripAll es s"
proof (induction es s rule: stripAll.induct)
  case (1 es s)
  show ?case
  proof (cases "stripOne es s")
    case None
    then have "set [] \<subseteq> set es \<and> s = concat [] @ stripAll es s"
      by (simp add: stripAll_None)
    then show ?thesis by blast
  next
    case (Some s')
    then obtain e where e: "e \<in> set es" "s = e @ s'"
      using stripOne_Some_prefix by blast
    obtain ws where ws: "set ws \<subseteq> set es" "s' = concat ws @ stripAll es s'"
      using 1 Some by blast
    have "set (e # ws) \<subseteq> set es \<and> s = concat (e # ws) @ stripAll es s"
      using e ws Some by (simp add: stripAll_Some)
    then show ?thesis by blast
  qed
qed

lemma TrimRightSpace_no_space_suffix:
  "e \<in> set spaceEncodings \<Longrightarrow> \<not> suffix e (TrimRightSpace s)"
proof -
  assume e: "e \<in> set spaceEncodings"
  have ne: "e \<noteq> []" using e by (auto simp: spaceEncodings_def)
  have "stripOne (map rev spaceEncodings) (rev (TrimRightSpace s)) = None"
    by (simp add: TrimRightSpace_def stripAll_done)
  then have "\<not> prefix (rev e) (rev (TrimRightSpace s))"
    using e ne by (auto simp: stripOne_None_iff)
  then show ?thesis
    by (simp add: suffix_to_prefix)
qed

lemma TrimRightSpace_removed:
  "\<exists>ws. set ws \<subseteq> set spaceEncodings \<and> s = TrimRightSpace s @ concat ws"
proof -
  obtain ws where ws: "set ws \<subseteq> set (map rev spaceEncodings)"
      "rev s = concat ws @ stripAll (map rev spaceEncodings) (rev s)"
    using stripAll_removed by blast
  have "rev (rev s) = rev (concat ws @ stripAll (map rev spaceEncodings) (rev s))"
    using ws(2) by simp
  then have "s = TrimRightSpace s @ concat (map rev (rev ws))"
    by (simp add: TrimRightSpace_def rev_concat)
  moreover have "set (map rev (rev ws)) \<subseteq> set spaceEncodings"
    using ws(1) by auto
  ultimately show ?thesis by blast
qed

text \<open>
  C8. With \<^verbatim>\<open>blank\<close> empty and \<^verbatim>\<open>fieldNS\<close> starting with a byte that begins no white-space
  rune, the rendering of a non-empty composite error is its lines, one per entry, each
  \<^verbatim>\<open>fieldNS\<close>, the path, \<^verbatim>\<open>errorText\<close> and the entry's message, joined by newlines and
  trimmed of trailing white space: what is cut off the joined lines is white space only,
  and the result ends in none.
\<close>

theorem DecodeErrors_Error_lines:
  assumes "d \<noteq> []" and "blank = []" and "fieldNS \<noteq> []" and "\<not> startsSpace (hd fieldNS)"
  shows "DecodeErrors_Error blank fieldNS errorText d =
           TrimRightSpace (strings_Join (map (\<lambda>(k, err). fieldNS @ k @ errorText @ err) d) [CHR 0x0A]) \<and>
         (\<exists>ws. set ws \<subseteq> set spaceEncodings \<and>
            strings_Join (map (\<lambda>(k, err). fieldNS @ k @ errorText @ err) d) [CHR 0x0A] =
              DecodeErrors_Error blank fieldNS errorText d @ concat ws) \<and>
         (\<forall>e \<in> set spaceEncodings. \<not> suffix e (DecodeErrors_Error blank fieldNS errorText d))"
proof -
  let ?lines = "map (\<lambda>(k, err). fieldNS @ k @ errorText @ err) d"
  let ?J = "strings_Join ?lines [CHR 0x0A]"
  have "concat (map (\<lambda>(k, err). (fieldNS @ k @ errorText @ err) @ [CHR 0x0A]) d) =
        concat (map (\<lambda>l. l @ [CHR 0x0A]) ?lines)"
    by (simp add: comp_def split_def)
  also have "\<dots> = ?J @ [CHR 0x0A]"
    by (rule concat_lines_Join) (simp add: assms(1))
  finally have buf: "fold (\<lambda>(k, err) buff. buff @ fieldNS @ k @ errorText @ err @ [CHR 0x0A]) d blank =
      ?J @ [CHR 0x0A]"
    using assms(2) by (simp add: fold_WriteString)
  obtain k err rest where d: "d = (k, err) # rest"
    using assms(1) by (cases d) auto
  obtain c cs where f: "fieldNS = c # cs"
    using assms(3) by (cases fieldNS) auto
  have "\<exists>t. ?J @ [CHR 0x0A] = c # t"
    by (cases rest) (simp_all add: d f)
  then obtain t where t: "?J @ [CHR 0x0A] = c # t" by blast
  have "TrimLeftSpace (?J @ [CHR 0x0A]) = ?J @ [CHR 0x0A]"
    unfolding t using assms(4) f by (simp add: TrimLeftSpace_keep)
  then have eq: "DecodeErrors_Error blank fieldNS errorText d = TrimRightSpace ?J"
    unfolding DecodeErrors_Error_def buf TrimSpace_def by (simp add: TrimRightSpace_newline)
  show ?thesis
    unfolding eq using TrimRightSpace_removed [of ?J] TrimRightSpace_no_space_suffix [of _ ?J]
    by blast
qed

theorem DecodeErrors_Error_lines_witness:
  "[(''A'', ''bad''), (''B[0]'', ''worse '')] \<noteq> [] \<and> ''Field Namespace:'' \<noteq> [] \<and>
   \<not> startsSpace (hd ''Field Namespace:'') \<and>
   DecodeErrors_Error [] ''Field Namespace:'' '' ERROR:'' [(''A'', ''bad''), (''B[0]'', ''worse '')] =
     ''Field Namespace:A ERROR:bad'' @ [CHR 0x0A] @ ''Field Namespace:B[0] ERROR:worse''"
proof -
  have tr: "TrimRightSpace (''Field Namespace:A ERROR:bad'' @ [CHR 0x0A] @
              ''Field Namespace:B[0] ERROR:worse '') =
            ''Field Namespace:A ERROR:bad'' @ [CHR 0x0A] @ ''Field Namespace:B[0] ERROR:worse''"
    by code_simp
  have st: "\<not> startsSpace (hd ''Field Namespace:'')"
    by (simp add: startsSpace_def spaceEncodings_def)
  show ?thesis
    using DecodeErrors_Error_lines [of "[(''A'', ''bad''), (''B[0]'', ''worse '')]" "[]"
        "''Field Namespace:''" "'' ERROR:''"] tr st
    by simp
qed

subsection \<open>Examples on the modelled traversal\<close>

text \<open>
  C1. For the mapping with the keys \<open>A[0]\<close> and \<open>A[2]\<close>, visited in either order, and
  the prefix \<open>A\<close>, index discovery finds the indices 0 and 2 and the size 3, and a slice of
  strings decoded at \<open>A\<close> has length 3 with the decoded values at 0 and 2 and the zero
  value at 1; so has the field of a struct decoded by \<open>Decode\<close>, which returns nil.
\<close>

theorem index_discovery_A0_A2:
  "sliceLen (fst (indicesFor [] [(''A[0]'', [''x'']), (''A[2]'', [''y''])] ''A'')) = 3 \<and>
   map ivalue (keys (fst (indicesFor [] [(''A[0]'', [''x'']), (''A[2]'', [''y''])] ''A''))) = [0, 2] \<and>
   sliceLen (fst (indicesFor [] [(''A[2]'', [''y'']), (''A[0]'', [''x''])] ''A'')) = 3 \<and>
   fst (snd (traverse string_conv (NewDecoder :: unit Decoder) (TSlice TString) (VSlice []) ''A''
      \<lparr>run_dec = fst (Decode_acquire NewDecoder [(''A[0]'', [''x'']), (''A[2]'', [''y''])] ()),
        run_store = (\<lambda>a. []), run_calls = []\<rparr>)) =
     VSlice [VString ''x'', VString [], VString ''y''] \<and>
   fst (snd (traverse string_conv (NewDecoder :: unit Decoder) (TSlice TString) (VSlice []) ''A''
      \<lparr>run_dec = fst (Decode_acquire NewDecoder [(''A[2]'', [''y'']), (''A[0]'', [''x''])] ()),
        run_store = (\<lambda>a. []), run_calls = []\<rparr>)) =
     VSlice [VString ''x'', VString [], VString ''y''] \<and>
   fst (Decode (traverseStruct_spec string_conv) (setFieldByType_spec string_conv)
      (NewDecoder :: unit Decoder)
      (Iface (TPtr (TStruct ''main.T'' [StructField ''A'' [] False (TSlice TString)]))
         (VPtr (Some (VStruct [VSlice []]))))
      [(''A[0]'', [''x'']), (''A[2]'', [''y''])] () [] (\<lambda>a. [])) = None \<and>
   fst (snd (Decode (traverseStruct_spec string_conv) (setFieldByType_spec string_conv)
      (NewDecoder :: unit Decoder)
      (Iface (TPtr (TStruct ''main.T'' [StructField ''A'' [] False (TSlice TString)]))
         (VPtr (Some (VStruct [VSlice []]))))
      [(''A[0]'', [''x'']), (''A[2]'', [''y''])] () [] (\<lambda>a. []))) =
     Iface (TPtr (TStruct ''main.T'' [StructField ''A'' [] False (TSlice TString)]))
       (VPtr (Some (VStruct [VSlice [VString ''x'', VString [], VString ''y'']])))"
  by code_simp

theorem index_discovery_A0_A2_witness:
  "sliceLen (fst (indicesFor [] [(''A[0]'', [''x'']), (''A[2]'', [''y''])] ''A'')) = 3"
  by (rule conjunct1 [OF index_discovery_A0_A2])

text \<open>
  C5. The context is not fully reset between calls: \<open>Decode\<close> cuts the index records,
  clears the error set and overwrites the mapping and the argument, but it never clears
  \<open>goValues\<close>. After a call on a fresh decoder that was given the output map at address 0,
  the context put back into the pool still refers to that map; a second call on the same
  decoder, given no output map, with the traversal modelled from the specification,
  writes its decoded value into the map of the first call.
\<close>

theorem Decode_goValues_survives_reuse:
  "(let target = Iface (TPtr (TStruct ''main.U'' [StructField ''Name'' [] False TString]))
                   (VPtr (Some (VStruct [VString []])));
        (e1, v1, d1, s1) =
          Decode (traverseStruct_spec string_conv) (setFieldByType_spec string_conv)
            (NewDecoder :: unit Decoder) target [(''Name'', [''alice''])] () [Some 0] (\<lambda>a. []);
        (e2, v2, d2, s2) =
          Decode (traverseStruct_spec string_conv) (setFieldByType_spec string_conv)
            d1 target [(''Name'', [''bob''])] () [] s1
    in map goValues (dataPool d1) = [Some 0] \<and>
       goValues (fst (Decode_acquire d1 [(''Name'', [''bob''])] ())) = Some 0 \<and>
       s1 0 = [(''Name'', VString ''alice'')] \<and>
       s2 0 = [(''Name'', VString ''bob'')] \<and>
       map errs (dataPool d1) = [[]] \<and> map dmDone (dataPool d1) = [False] \<and>
       dm (fst (Decode_acquire d1 [(''Name'', [''bob''])] ())) = [])"
  by code_simp

theorem Decode_goValues_survives_reuse_witness:
  "snd (snd (snd (Decode (traverseStruct_spec string_conv) (setFieldByType_spec string_conv)
      (fst (snd (snd (Decode (traverseStruct_spec string_conv) (setFieldByType_spec string_conv)
         (NewDecoder :: unit Decoder)
         (Iface (TPtr (TStruct ''main.U'' [StructField ''Name'' [] False TString]))
            (VPtr (Some (VStruct [VString []]))))
         [(''Name'', [''alice''])] () [Some 0] (\<lambda>a. [])))))
      (Iface (TPtr (TStruct ''main.U'' [StructField ''Name'' [] False TString]))
         (VPtr (Some (VStruct [VString []]))))
      [(''Name'', [''bob''])] () []
      (snd (snd (snd (Decode (traverseStruct_spec string_conv) (setFieldByType_spec string_conv)
         (NewDecoder :: unit Decoder)
         (Iface (TPtr (TStruct ''main.U'' [StructField ''Name'' [] False TString]))
            (VPtr (Some (VStruct [VString []]))))
         [(''Name'', [''alice''])] () [Some 0] (\<lambda>a. [])))))))) 0 =
     [(''Name'', VString ''bob'')]"
  using Decode_goValues_survives_reuse
  by (simp add: Let_def split_def)

subsection \<open>Index discovery and the size bound\<close>

lemma isNumeric_no_bracket: "isNumeric tok \<Longrightarrow> CHR '']'' \<notin> set tok"
proof
  assume n: "isNumeric tok" and b: "CHR '']'' \<in> set tok"
  then have "isDigit CHR '']''"
    by (simp add: isNumeric_def list_all_iff)
  then show False
    by (simp add: isDigit_def)
qed

lemma set_firstOccurrences: "set (firstOccurrences seen xs) = set xs - set seen"
  by (induction seen xs rule: firstOccurrences.induct) auto

lemma bracketToken_key:
  assumes "CHR '']'' \<notin> set tok"
  shows "bracketToken ns (ns @ ''['' @ tok @ '']'' @ rest) = Some tok"
proof -
  have "takeWhile (\<lambda>c. c \<noteq> CHR '']'') (tok @ CHR '']'' # rest) = tok"
    using assms by (induction tok) auto
  then show ?thesis
    by (simp add: bracketToken_def)
qed

lemma scanKeys_member:
  assumes "k \<in> fst ` set vals" and "bracketToken ns k = Some tok"
  shows "indexKey ns tok \<in> set (scanKeys vals ns)"
proof -
  obtain vs where "(k, vs) \<in> set vals" using assms(1) by auto
  then have "k \<in> set (filter (\<lambda>x. bracketToken ns x \<noteq> None) (map fst vals))"
    using assms(2) by force
  then have "(the \<circ> bracketToken ns) k \<in> set (List.map_filter (bracketToken ns) (map fst vals))"
    unfolding List.map_filter_def set_map by (rule imageI)
  then have "tok \<in> set (List.map_filter (bracketToken ns) (map fst vals))"
    using assms(2) by simp
  then show ?thesis
    by (simp add: scanKeys_def set_firstOccurrences)
qed


lemma indicesFor_keys:
  assumes "\<forall>rd \<in> set m. keys rd = scanKeys vals (rd_alias rd)"
  shows "keys (fst (indicesFor m vals ns)) = scanKeys vals ns"
proof (cases "findAlias m ns")
  case None
  then show ?thesis by (simp add: indicesFor_def Let_def)
next
  case (Some rd)
  then have "rd \<in> set m" "rd_alias rd = ns"
    by (auto simp: findAlias_def find_Some_iff)
  then show ?thesis
    using assms Some by (simp add: indicesFor_def)
qed

lemma map_of_map_store: "map_of (map_store k v m) k = Some v"
  by (induction m) auto

lemma map_of_map_store_other: "p \<noteq> k \<Longrightarrow> map_of (map_store k v m) p = map_of m p"
  by (induction m) auto

text \<open>
  C4. A numeric index found under a slice's path that is at or above the decoder's
  maximum array size (10000 by default, \<open>SetMaxArraySize\<close> stores the size given) makes
  the traversal record an error for that field under its path and return the slice as
  it was: nothing is allocated or cut short, the errors of other paths and the output
  maps are untouched, and the traversal goes on (in the example after the theorem the
  decode of a struct still assigns the next field and returns the composite error).
\<close>

theorem slice_index_at_or_above_maximum:
  assumes "\<forall>rd \<in> set (dm (run_dec r)). keys rd = scanKeys (dec_values (run_dec r)) (rd_alias rd)"
    and "ns @ ''['' @ tok @ '']'' @ rest \<in> fst ` set (dec_values (run_dec r))"
    and "isNumeric tok"
    and "maxArraySize d \<le> atoiSat tok"
  shows "(\<exists>r'. traverse cv d (TSlice t) v ns r = (r', v, False) \<and>
           map_of (errs (run_dec r')) ns = Some errArraySize \<and>
           (\<forall>p. p \<noteq> ns \<longrightarrow> map_of (errs (run_dec r')) p = map_of (errs (run_dec r)) p) \<and>
           run_store r' = run_store r \<and> dec_values (run_dec r') = dec_values (run_dec r)) \<and>
         maxArraySize (NewDecoder :: 'arg Decoder) = 10000 \<and>
         maxArraySize (SetMaxArraySize d n) = sint n"
proof -
  let ?vals = "dec_values (run_dec r)"
  obtain rd m where im: "indicesFor (dm (run_dec r)) ?vals ns = (rd, m)"
    by (cases "indicesFor (dm (run_dec r)) ?vals ns")
  have ks: "keys rd = scanKeys ?vals ns"
    using indicesFor_keys [OF assms(1), of ns] im by simp
  let ?k = "indexKey ns tok"
  have "bracketToken ns (ns @ ''['' @ tok @ '']'' @ rest) = Some tok"
    using assms(3) by (intro bracketToken_key isNumeric_no_bracket)
  then have mem: "?k \<in> set (keys rd)"
    unfolding ks using assms(2) by (rule scanKeys_member [rotated])
  let ?nks = "filter (\<lambda>k. isNumeric (key_value k)) (keys rd)"
  have kn: "?k \<in> set ?nks"
    using mem assms(3) by (simp add: indexKey_def)
  then have ne: "?nks \<noteq> []" by (metis empty_iff list.set(1))
  have "maxArraySize d \<le> ivalue ?k"
    using assms(3,4) by (simp add: indexKey_def)
  then have ex: "list_ex (\<lambda>k. maxArraySize d \<le> ivalue k) ?nks"
    using kn unfolding list_ex_iff by blast
  let ?r' = "setError (r\<lparr>run_dec := (run_dec r)\<lparr>dm := m\<rparr>\<rparr>) ns errArraySize"
  have tr: "traverse cv d (TSlice t) v ns r = (?r', v, False)"
    using im ne ex by (simp add: Let_def)
  have "map_of (errs (run_dec ?r')) ns = Some errArraySize"
    by (simp add: setError_def map_of_map_store)
  moreover have "\<forall>p. p \<noteq> ns \<longrightarrow> map_of (errs (run_dec ?r')) p = map_of (errs (run_dec r)) p"
    by (simp add: setError_def map_of_map_store_other)
  moreover have "run_store ?r' = run_store r" "dec_values (run_dec ?r') = dec_values (run_dec r)"
    by (simp_all add: setError_def)
  ultimately have main: "\<exists>r'. traverse cv d (TSlice t) v ns r = (r', v, False) \<and>
           map_of (errs (run_dec r')) ns = Some errArraySize \<and>
           (\<forall>p. p \<noteq> ns \<longrightarrow> map_of (errs (run_dec r')) p = map_of (errs (run_dec r)) p) \<and>
           run_store r' = run_store r \<and> dec_values (run_dec r') = dec_values (run_dec r)"
    using tr by blast
  have "maxArraySize (NewDecoder :: 'arg Decoder) = 10000"
    by (simp add: NewDecoder_def defaultMaxArraySize_def)
  moreover have "maxArraySize (SetMaxArraySize d n) = sint n"
    by (simp add: SetMaxArraySize_def)
  ultimately show ?thesis
    using main by blast
qed

theorem slice_index_at_or_above_maximum_witness:
  "isNumeric ''10000'' \<and> maxArraySize (NewDecoder :: unit Decoder) \<le> atoiSat ''10000'' \<and>
   snd (traverse string_conv (NewDecoder :: unit Decoder) (TSlice TString) (VSlice []) ''A''
      \<lparr>run_dec = fst (Decode_acquire NewDecoder [(''A[10000]'', [''x'']), (''B'', [''b''])] ()),
        run_store = (\<lambda>a. []), run_calls = []\<rparr>) = (VSlice [], False) \<and>
   fst (Decode (traverseStruct_spec string_conv) (setFieldByType_spec string_conv)
      (SetMaxArraySize (NewDecoder :: unit Decoder) 2)
      (Iface (TPtr (TStruct ''main.S'' [StructField ''A'' [] False (TSlice TString),
                                       StructField ''B'' [] False TString]))
         (VPtr (Some (VStruct [VSlice [], VString []]))))
      [(''A[2]'', [''x'']), (''B'', [''b''])] () [] (\<lambda>a. [])) = Some (DecodeErrorsErr [(''A'', errArraySize)]) \<and>
   fst (snd (Decode (traverseStruct_spec string_conv) (setFieldByType_spec string_conv)
      (SetMaxArraySize (NewDecoder :: unit Decoder) 2)
      (Iface (TPtr (TStruct ''main.S'' [StructField ''A'' [] False (TSlice TString),
                                       StructField ''B'' [] False TString]))
         (VPtr (Some (VStruct [VSlice [], VString []]))))
      [(''A[2]'', [''x'']), (''B'', [''b''])] () [] (\<lambda>a. []))) =
     Iface (TPtr (TStruct ''main.S'' [StructField ''A'' [] False (TSlice TString),
                                     StructField ''B'' [] False TString]))
       (VPtr (Some (VStruct [VSlice [], VString ''b''])))"
proof -
  let ?r = "\<lparr>run_dec = fst (Decode_acquire (NewDecoder :: unit Decoder)
                 [(''A[10000]'', [''x'']), (''B'', [''b''])] ()),
             run_store = (\<lambda>a. []), run_calls = []\<rparr> :: unit run"
  have h1: "\<forall>rd \<in> set (dm (run_dec ?r)). keys rd = scanKeys (dec_values (run_dec ?r)) (rd_alias rd)"
    by (simp add: Decode_acquire_def dataPool_Get_def NewDecoder_def dataPool_New_def)
  have h2: "''A'' @ ''['' @ ''10000'' @ '']'' @ [] \<in> fst ` set (dec_values (run_dec ?r))"
    by (simp add: Decode_acquire_def dataPool_Get_def NewDecoder_def dataPool_New_def)
  have h3: "isNumeric ''10000''"
    by code_simp
  have h4: "maxArraySize (NewDecoder :: unit Decoder) \<le> atoiSat ''10000''"
    by code_simp
  have dec: "fst (Decode (traverseStruct_spec string_conv) (setFieldByType_spec string_conv)
      (SetMaxArraySize (NewDecoder :: unit Decoder) 2)
      (Iface (TPtr (TStruct ''main.S'' [StructField ''A'' [] False (TSlice TString),
                                       StructField ''B'' [] False TString]))
         (VPtr (Some (VStruct [VSlice [], VString []]))))
      [(''A[2]'', [''x'']), (''B'', [''b''])] () [] (\<lambda>a. [])) = Some (DecodeErrorsErr [(''A'', errArraySize)]) \<and>
   fst (snd (Decode (traverseStruct_spec string_conv) (setFieldByType_spec string_conv)
      (SetMaxArraySize (NewDecoder :: unit Decoder) 2)
      (Iface (TPtr (TStruct ''main.S'' [StructField ''A'' [] False (TSlice TString),
                                       StructField ''B'' [] False TString]))
         (VPtr (Some (VStruct [VSlice [], VString []]))))
      [(''A[2]'', [''x'']), (''B'', [''b''])] () [] (\<lambda>a. []))) =
     Iface (TPtr (TStruct ''main.S'' [StructField ''A'' [] False (TSlice TString),
                                     StructField ''B'' [] False TString]))
       (VPtr (Some (VStruct [VSlice [], VString ''b''])))"
    by code_simp
  obtain r' where "traverse string_conv (NewDecoder :: unit Decoder) (TSlice TString) (VSlice [])
      ''A'' ?r = (r', VSlice [], False)"
    using slice_index_at_or_above_maximum [OF h1 h2 h3 h4, of string_conv TString "VSlice []"]
    by blast
  then have tr: "snd (traverse string_conv (NewDecoder :: unit Decoder) (TSlice TString) (VSlice [])
      ''A'' ?r) = (VSlice [], False)"
    by (simp only: snd_conv)
  show ?thesis
    using h3 h4 tr dec by (intro conjI) blast+
qed

subsection \<open>Descriptors and the fields they stand for\<close>

text \<open>
  The embedding scenario of section 8 on the model: with \<^verbatim>\<open>type A struct { Field string }\<close>
  and \<^verbatim>\<open>type B struct { A; Field string }\<close>, the bare key \<^verbatim>\<open>Field\<close> goes to the outer field and
  the dotted key \<^verbatim>\<open>A.Field\<close> to the embedded one, also when it is the only key.
\<close>

lemma embedded_field_scenario:
  "fst (snd (Decode (traverseStruct_spec string_conv) (setFieldByType_spec string_conv)
      (NewDecoder :: unit Decoder)
      (Iface (TPtr (TStruct ''main.B''
           [StructField ''A'' [] True (TStruct ''main.A'' [StructField ''Field'' [] False TString]),
            StructField ''Field'' [] False TString]))
         (VPtr (Some (VStruct [VStruct [VString []], VString []]))))
      [(''Field'', [''B'']), (''A.Field'', [''A''])] () [] (\<lambda>a. []))) =
     Iface (TPtr (TStruct ''main.B''
           [StructField ''A'' [] True (TStruct ''main.A'' [StructField ''Field'' [] False TString]),
            StructField ''Field'' [] False TString]))
       (VPtr (Some (VStruct [VStruct [VString ''A''], VString ''B''])))"
  "fst (snd (Decode (traverseStruct_spec string_conv) (setFieldByType_spec string_conv)
      (NewDecoder :: unit Decoder)
      (Iface (TPtr (TStruct ''main.B''
           [StructField ''A'' [] True (TStruct ''main.A'' [StructField ''Field'' [] False TString]),
            StructField ''Field'' [] False TString]))
         (VPtr (Some (VStruct [VStruct [VString []], VString []]))))
      [(''Field'', [''B''])] () [] (\<lambda>a. []))) =
     Iface (TPtr (TStruct ''main.B''
           [StructField ''A'' [] True (TStruct ''main.A'' [StructField ''Field'' [] False TString]),
            StructField ''Field'' [] False TString]))
       (VPtr (Some (VStruct [VStruct [VString []], VString ''B''])))"
  "fst (snd (Decode (traverseStruct_spec string_conv) (setFieldByType_spec string_conv)
      (NewDecoder :: unit Decoder)
      (Iface (TPtr (TStruct ''main.B''
           [StructField ''A'' [] True (TStruct ''main.A'' [StructField ''Field'' [] False TString]),
            StructField ''Field'' [] False TString]))
         (VPtr (Some (VStruct [VStruct [VString []], VString []]))))
      [(''A.Field'', [''A''])] () [] (\<lambda>a. []))) =
     Iface (TPtr (TStruct ''main.B''
           [StructField ''A'' [] True (TStruct ''main.A'' [StructField ''Field'' [] False TString]),
            StructField ''Field'' [] False TString]))
       (VPtr (Some (VStruct [VStruct [VString ''A''], VString []])))"
  by code_simp+

text \<open>
  An embedded record is offered to the custom function of its type at the path of its
  own name.
\<close>

lemma embedded_record_custom_function:
  "run_calls (fst (traverse string_conv
      (RegisterFunc (NewDecoder :: unit Decoder) (\<lambda>s a. Inr (VStruct [VString s]))
         [TStruct ''main.A'' [StructField ''Field'' [] False TString]])
      (TStruct ''main.B''
         [StructField ''A'' [] True (TStruct ''main.A'' [StructField ''Field'' [] False TString]),
          StructField ''Field'' [] False TString])
      (VStruct [VStruct [VString []], VString []]) []
      \<lparr>run_dec = fst (Decode_acquire (NewDecoder :: unit Decoder) [(''A'', [''q''])] ()),
        run_store = (\<lambda>a. []), run_calls = []\<rparr>)) =
     [(''A'', TStruct ''main.A'' [StructField ''Field'' [] False TString])]"
  by code_simp

lemma collect_index_prefix:
  "fd \<in> set (collectFields d depth idx i fs) \<Longrightarrow> \<exists>j\<ge>i. prefix (idx @ [j]) (fd_index fd)"
  "fd \<in> set (collectField d depth pos f) \<Longrightarrow> prefix pos (fd_index fd)"
proof (induction d depth idx i fs and d depth pos f arbitrary: fd and fd
      rule: collectFields_collectField.induct)
  case (1 d depth idx i)
  then show ?case by simp
next
  case (2 d depth idx i f fs)
  from 2(3) have "fd \<in> set (collectField d depth (idx @ [i]) f) \<or>
      fd \<in> set (collectFields d depth idx (Suc i) fs)"
    by simp
  then show ?case
  proof
    assume "fd \<in> set (collectField d depth (idx @ [i]) f)"
    then have "prefix (idx @ [i]) (fd_index fd)" by (rule 2(1))
    then show ?thesis by blast
  next
    assume "fd \<in> set (collectFields d depth idx (Suc i) fs)"
    then obtain j where "j \<ge> Suc i" "prefix (idx @ [j]) (fd_index fd)"
      using 2(2) by blast
    then show ?thesis by (meson Suc_leD)
  qed
next
  case (3 d depth pos n tg an ty)
  define own where "own =
    (case resolveName d (StructField n tg an ty) of
       None \<Rightarrow> []
     | Some nm \<Rightarrow>
         [\<lparr>fd_index = pos, fd_name = nm, fd_type = ty, fd_anonymous = (an \<or> 0 < depth),
           fd_depth = depth, fd_ambiguous = False\<rparr>])"
  have own: "x \<in> set own \<Longrightarrow> fd_index x = pos" for x
    by (auto simp: own_def split: option.splits)
  show ?case
  proof (cases "an \<and> explicitTag d (StructField n tg an ty) = None")
    case True
    show ?thesis
    proof (cases ty)
      case (TStruct n' fs')
      from 3(2) True TStruct
      have "fd \<in> set (collectFields d (Suc depth) pos 0 fs') \<or> fd \<in> set own"
        by (auto simp: own_def)
      then show ?thesis
      proof
        assume "fd \<in> set (collectFields d (Suc depth) pos 0 fs')"
        from 3(1) [OF own_def True TStruct this] obtain j where "prefix (pos @ [j]) (fd_index fd)"
          by blast
        then show ?thesis
          by (meson append_prefixD)
      next
        assume "fd \<in> set own"
        then show ?thesis using own by simp
      qed
    qed (use 3(2) True in auto)
  next
    case False
    with 3(2) have "fd \<in> set own" by (auto simp: own_def)
    then show ?thesis using own by simp
  qed
qed

lemma collect_depth:
  "fd \<in> set (collectFields d depth idx i fs) \<Longrightarrow>
     depth \<le> fd_depth fd \<and> (0 < fd_depth fd \<longrightarrow> fd_anonymous fd)"
  "fd \<in> set (collectField d depth pos f) \<Longrightarrow>
     depth \<le> fd_depth fd \<and> (0 < fd_depth fd \<longrightarrow> fd_anonymous fd)"
proof (induction d depth idx i fs and d depth pos f arbitrary: fd and fd
      rule: collectFields_collectField.induct)
  case (1 d depth idx i)
  then show ?case by simp
next
  case (2 d depth idx i f fs)
  from 2(3) have "fd \<in> set (collectField d depth (idx @ [i]) f) \<or>
      fd \<in> set (collectFields d depth idx (Suc i) fs)"
    by simp
  then show ?case
    using 2(1,2) by blast
next
  case (3 d depth pos n tg an ty)
  define own where "own =
    (case resolveName d (StructField n tg an ty) of
       None \<Rightarrow> []
     | Some nm \<Rightarrow>
         [\<lparr>fd_index = pos, fd_name = nm, fd_type = ty, fd_anonymous = (an \<or> 0 < depth),
           fd_depth = depth, fd_ambiguous = False\<rparr>])"
  have own: "x \<in> set own \<Longrightarrow> fd_depth x = depth \<and> fd_anonymous x = (an \<or> 0 < depth)" for x
    by (auto simp: own_def split: option.splits)
  show ?case
  proof (cases "an \<and> explicitTag d (StructField n tg an ty) = None")
    case True
    show ?thesis
    proof (cases ty)
      case (TStruct n' fs')
      from 3(2) True TStruct
      have "fd \<in> set (collectFields d (Suc depth) pos 0 fs') \<or> fd \<in> set own"
        by (auto simp: own_def)
      then show ?thesis
      proof
        assume "fd \<in> set (collectFields d (Suc depth) pos 0 fs')"
        from 3(1) [OF own_def True TStruct this] show ?thesis by simp
      next
        assume "fd \<in> set own"
        then show ?thesis using own by simp
      qed
    qed (use 3(2) True in auto)
  next
    case False
    with 3(2) have "fd \<in> set own" by (auto simp: own_def)
    then show ?thesis using own by simp
  qed
qed

lemma prefix_index_same:
  assumes "prefix (idx @ [i]) p" and "prefix (idx @ [j]) q" and "prefix p q"
  shows "i = j"
proof -
  have "prefix (idx @ [i]) q" using assms(1,3) by (rule prefix_order.trans)
  then obtain a b where "q = (idx @ [i]) @ a" "q = (idx @ [j]) @ b"
    using assms(2) by (auto simp: prefix_def)
  then show ?thesis by simp
qed

text \<open>
  The descriptor of a field the record declares itself (no embedding made it) shares its
  place in the value with no other descriptor: no other index is a prefix of its index
  or has it as a prefix.
\<close>

lemma collect_declared_alone:
  "fd \<in> set (collectFields d depth idx i fs) \<Longrightarrow> fd' \<in> set (collectFields d depth idx i fs) \<Longrightarrow>
     \<not> fd_anonymous fd \<Longrightarrow>
     prefix (fd_index fd) (fd_index fd') \<or> prefix (fd_index fd') (fd_index fd) \<Longrightarrow> fd = fd'"
  "fd \<in> set (collectField d depth pos f) \<Longrightarrow> fd' \<in> set (collectField d depth pos f) \<Longrightarrow>
     \<not> fd_anonymous fd \<Longrightarrow>
     prefix (fd_index fd) (fd_index fd') \<or> prefix (fd_index fd') (fd_index fd) \<Longrightarrow> fd = fd'"
proof (induction d depth idx i fs and d depth pos f arbitrary: fd fd' and fd fd'
      rule: collectFields_collectField.induct)
  case (1 d depth idx i)
  then show ?case by simp
next
  case (2 d depth idx i f fs)
  note IH1 = 2(1) and IH2 = 2(2) and na = 2(5) and pf = 2(6)
  let ?H = "collectField d depth (idx @ [i]) f"
  let ?T = "collectFields d depth idx (Suc i) fs"
  have head: "prefix (idx @ [i]) (fd_index x)" if "x \<in> set ?H" for x
    using that by (rule collect_index_prefix(2))
  have tail: "\<exists>j\<ge>Suc i. prefix (idx @ [j]) (fd_index x)" if "x \<in> set ?T" for x
    using that by (rule collect_index_prefix(1))
  have apart: False if "x \<in> set ?H" "y \<in> set ?T"
      "prefix (fd_index x) (fd_index y) \<or> prefix (fd_index y) (fd_index x)" for x y
  proof -
    note x = that(1) and y = that(2) and cmp = that(3)
    obtain j where j: "j \<ge> Suc i" "prefix (idx @ [j]) (fd_index y)"
      using tail [OF y] by blast
    from cmp have "i = j"
    proof
      assume "prefix (fd_index x) (fd_index y)"
      then show ?thesis using prefix_index_same [OF head [OF x] j(2)] by simp
    next
      assume "prefix (fd_index y) (fd_index x)"
      then show ?thesis using prefix_index_same [OF j(2) head [OF x]] by simp
    qed
    then show False using j(1) by simp
  qed
  from 2(3,4) consider
      "fd \<in> set ?H" "fd' \<in> set ?H" | "fd \<in> set ?T" "fd' \<in> set ?T"
    | "fd \<in> set ?H" "fd' \<in> set ?T" | "fd \<in> set ?T" "fd' \<in> set ?H"
    by auto
  then show ?case
  proof cases
    case 1
    then show ?thesis using IH1 na pf by blast
  next
    case 2
    then show ?thesis using IH2 na pf by blast
  next
    case 3
    then show ?thesis using apart [of fd fd'] pf by blast
  next
    case 4
    then show ?thesis using apart [of fd' fd] pf by blast
  qed
next
  case (3 d depth pos n tg an ty)
  note mem = 3(2) and mem' = 3(3) and na = 3(4)
  define own where "own =
    (case resolveName d (StructField n tg an ty) of
       None \<Rightarrow> []
     | Some nm \<Rightarrow>
         [\<lparr>fd_index = pos, fd_name = nm, fd_type = ty, fd_anonymous = (an \<or> 0 < depth),
           fd_depth = depth, fd_ambiguous = False\<rparr>])"
  have own_eq: "x \<in> set own \<Longrightarrow> y \<in> set own \<Longrightarrow> x = y" for x y
    by (cases "resolveName d (StructField n tg an ty)") (simp_all add: own_def)
  have own_an: "x \<in> set own \<Longrightarrow> fd_anonymous x = (an \<or> 0 < depth)" for x
    by (auto simp: own_def split: option.splits)
  show ?case
  proof (cases "an \<and> explicitTag d (StructField n tg an ty) = None")
    case True
    have "fd_anonymous fd"
    proof (cases ty)
      case (TStruct n' fs')
      from mem True TStruct
      have "fd \<in> set (collectFields d (Suc depth) pos 0 fs') \<or> fd \<in> set own"
        by (auto simp: own_def)
      then show ?thesis
      proof
        assume "fd \<in> set (collectFields d (Suc depth) pos 0 fs')"
        then show ?thesis using collect_depth(1) by fastforce
      next
        assume "fd \<in> set own"
        then show ?thesis using own_an True by simp
      qed
    qed (use mem True in auto)
    then show ?thesis using na by simp
  next
    case False
    with mem mem' have "fd \<in> set own" "fd' \<in> set own" by (auto simp: own_def)
    then show ?thesis by (rule own_eq)
  qed
qed

lemma getField_setField_other:
  "\<not> prefix q p \<Longrightarrow> \<not> prefix p q \<Longrightarrow> getField p (setField q x vs) = getField p vs"
proof (induction q x vs arbitrary: p rule: setField.induct)
  case (1 x vs)
  then show ?case by simp
next
  case (2 i x vs)
  show ?case
  proof (cases p)
    case Nil
    then show ?thesis by simp
  next
    case (Cons k ks)
    with 2 have "k \<noteq> i" by (cases ks) auto
    then show ?thesis
      using Cons by (cases ks) (simp_all add: nth_list_update)
  qed
next
  case (3 i j js x vs)
  show ?case
  proof (cases "i < length vs")
    case False
    then show ?thesis by simp
  next
    case True
    show ?thesis
    proof (cases "vs ! i")
      case (VStruct ws)
      show ?thesis
      proof (cases p)
        case Nil
        then show ?thesis by simp
      next
        case (Cons k ks)
        show ?thesis
        proof (cases ks)
          case Nil
          with Cons 3(3) have "k \<noteq> i" by auto
          then show ?thesis
            using Cons Nil True VStruct by simp
        next
          case (Cons l ls)
          show ?thesis
          proof (cases "k = i")
            case False
            then show ?thesis
              using \<open>p = k # ks\<close> Cons True VStruct by simp
          next
            case k: True
            have "\<not> prefix (j # js) (l # ls)" "\<not> prefix (l # ls) (j # js)"
              using 3(2,3) \<open>p = k # ks\<close> Cons k by auto
            then have "getField (l # ls) (setField (j # js) x ws) = getField (l # ls) ws"
              using 3(1) [OF True VStruct] by blast
            then show ?thesis
              using \<open>p = k # ks\<close> Cons True VStruct k by simp
          qed
        qed
      qed
    qed (use True in simp_all)
  qed
qed

lemma fold_fields_frame:
  assumes "\<And>fd st. fd \<in> set fds \<Longrightarrow> Q (fst (snd (f fd st))) = Q (fst (snd st))"
  shows "Q (fst (snd (fold f fds st))) = Q (fst (snd st))"
  using assms by (induction fds arbitrary: st) simp_all

lemma filter_two:
  assumes "x \<in> set xs" "y \<in> set xs" "x \<noteq> y" "P x" "P y"
  shows "1 < length (filter P xs)"
proof -
  have "{x, y} \<subseteq> set (filter P xs)" using assms by simp
  then have "card {x, y} \<le> card (set (filter P xs))"
    by (intro card_mono) simp_all
  also have "\<dots> \<le> length (filter P xs)" by (rule card_length)
  finally show ?thesis using assms(3) by simp
qed

lemma resolve_member:
  assumes "fd \<in> set (resolve d (TStruct n fs))"
  obtains fd0 where "fd0 \<in> set (collectFields d 0 [] 0 fs)"
    and "fd = fd0\<lparr>fd_ambiguous := collides (collectFields d 0 [] 0 fs) fd0\<rparr>"
  using assms by (auto simp: resolve_def Let_def)

lemma resolve_declared_alone:
  assumes "fd \<in> set (resolve d (TStruct n fs))" and "fd' \<in> set (resolve d (TStruct n fs))"
    and "\<not> fd_anonymous fd"
    and "prefix (fd_index fd) (fd_index fd') \<or> prefix (fd_index fd') (fd_index fd)"
  shows "fd = fd'"
proof -
  obtain fd0 where a: "fd0 \<in> set (collectFields d 0 [] 0 fs)"
      "fd = fd0\<lparr>fd_ambiguous := collides (collectFields d 0 [] 0 fs) fd0\<rparr>"
    using assms(1) by (rule resolve_member)
  obtain fd0' where b: "fd0' \<in> set (collectFields d 0 [] 0 fs)"
      "fd' = fd0'\<lparr>fd_ambiguous := collides (collectFields d 0 [] 0 fs) fd0'\<rparr>"
    using assms(2) by (rule resolve_member)
  have "fd0 = fd0'"
    using collect_declared_alone(1) [OF a(1) b(1)] assms(3,4) a(2) b(2) by simp
  then show ?thesis using a(2) b(2) by simp
qed

lemma resolve_collision_ambiguous:
  assumes "fd \<in> set (resolve d (TStruct n fs))" and "fd' \<in> set (resolve d (TStruct n fs))"
    and "fd_index fd' \<noteq> fd_index fd" and "fd_name fd' = fd_name fd"
    and "fd_depth fd' = fd_depth fd"
  shows "fd_ambiguous fd"
proof -
  obtain fd0 where a: "fd0 \<in> set (collectFields d 0 [] 0 fs)"
      "fd = fd0\<lparr>fd_ambiguous := collides (collectFields d 0 [] 0 fs) fd0\<rparr>"
    using assms(1) by (rule resolve_member)
  obtain fd0' where b: "fd0' \<in> set (collectFields d 0 [] 0 fs)"
      "fd' = fd0'\<lparr>fd_ambiguous := collides (collectFields d 0 [] 0 fs) fd0'\<rparr>"
    using assms(2) by (rule resolve_member)
  have "fd0 \<noteq> fd0'" using assms(3) a(2) b(2) by auto
  moreover have "fd_name fd0' = fd_name fd0" "fd_depth fd0' = fd_depth fd0"
    using assms(4,5) a(2) b(2) by simp_all
  ultimately have "collides (collectFields d 0 [] 0 fs) fd0"
    unfolding collides_def using a(1) b(1)
    by (intro filter_two [of fd0 _ fd0']) simp_all
  then show ?thesis using a(2) by simp
qed

lemma traverse_struct:
  "traverse cv d (TStruct n fs) (VStruct vs) ns r =
     (case fold (fieldStep cv d ns) (resolve d (TStruct n fs)) (r, vs, False) of
        (r', vs', set') \<Rightarrow> (r', VStruct vs', set'))"
proof -
  have "fieldStep cv d ns =
      (\<lambda>fd (r, vs, set').
          if fd_ambiguous fd then (r, vs, set')
          else
            let x0 = (case getField (fd_index fd) vs of
                        None \<Rightarrow> zero (fd_type fd)
                      | Some y \<Rightarrow> y);
                path = extendPath d ns (fd_name fd);
                (r', x, set'') =
                  (case customFor d r (fd_type fd) path of
                     Some (cf, raw, a) \<Rightarrow> applyCustom cf a (fd_type fd) raw path x0 r
                   | None \<Rightarrow> traverse cv d (fd_type fd) x0 path r)
            in (r', setField (fd_index fd) x vs, set' \<or> set''))"
    by (intro ext) (simp add: fieldStep_def)
  then show ?thesis
    by (simp del: fold_simps)
qed

lemma fieldStep_values:
  "fst (snd (fieldStep cv d ns fd st)) = fst (snd st) \<or>
   (\<not> fd_ambiguous fd \<and> (\<exists>x. fst (snd (fieldStep cv d ns fd st)) = setField (fd_index fd) x (fst (snd st))))"
  by (cases st) (auto simp: fieldStep_def Let_def split: option.splits prod.splits)

text \<open>
  C6, as it holds. A descriptor of a record whose resolved name collides with that of
  another descriptor of the record at the same flattening depth is marked ambiguous, and
  the traversal of the record skips it: the field is never decoded at its own path,
  whatever the mapping contains. When the record declares the field itself (no embedding
  promoted it), or more generally when no decoded descriptor of the record overlaps it,
  the field holds after the traversal of the record what it held before.
\<close>

theorem ambiguous_field_skipped_by_its_record:
  assumes "fd \<in> set (resolve d (TStruct n fs))"
    and "fd' \<in> set (resolve d (TStruct n fs))"
    and "fd_index fd' \<noteq> fd_index fd"
    and "fd_name fd' = fd_name fd"
    and "fd_depth fd' = fd_depth fd"
  shows "fd_ambiguous fd \<and>
         fieldStep cv d ns fd st = st \<and>
         (\<not> fd_anonymous fd \<or>
          (\<forall>fd1 \<in> set (resolve d (TStruct n fs)). \<not> fd_ambiguous fd1 \<longrightarrow>
             \<not> prefix (fd_index fd1) (fd_index fd) \<and> \<not> prefix (fd_index fd) (fd_index fd1)) \<longrightarrow>
          (\<exists>r' vs' s. traverse cv d (TStruct n fs) (VStruct vs) ns r = (r', VStruct vs', s) \<and>
             getField (fd_index fd) vs' = getField (fd_index fd) vs))"
proof -
  have amb: "fd_ambiguous fd"
    using assms by (rule resolve_collision_ambiguous)
  have skip: "fieldStep cv d ns fd st = st"
    using amb by (cases st) (simp add: fieldStep_def)
  have kept: "\<exists>r' vs' s. traverse cv d (TStruct n fs) (VStruct vs) ns r = (r', VStruct vs', s) \<and>
      getField (fd_index fd) vs' = getField (fd_index fd) vs"
    if H: "\<not> fd_anonymous fd \<or>
      (\<forall>fd1 \<in> set (resolve d (TStruct n fs)). \<not> fd_ambiguous fd1 \<longrightarrow>
         \<not> prefix (fd_index fd1) (fd_index fd) \<and> \<not> prefix (fd_index fd) (fd_index fd1))"
  proof -
    have apart: "\<not> prefix (fd_index fd1) (fd_index fd) \<and> \<not> prefix (fd_index fd) (fd_index fd1)"
      if "fd1 \<in> set (resolve d (TStruct n fs))" "\<not> fd_ambiguous fd1" for fd1
      using H
    proof
      assume na: "\<not> fd_anonymous fd"
      have "fd1 \<noteq> fd" using amb that(2) by auto
      then show ?thesis
        using resolve_declared_alone [OF assms(1) that(1) na] by blast
    next
      assume "\<forall>fd1 \<in> set (resolve d (TStruct n fs)). \<not> fd_ambiguous fd1 \<longrightarrow>
         \<not> prefix (fd_index fd1) (fd_index fd) \<and> \<not> prefix (fd_index fd) (fd_index fd1)"
      then show ?thesis using that by blast
    qed
    have step: "getField (fd_index fd) (fst (snd (fieldStep cv d ns fd1 st))) =
        getField (fd_index fd) (fst (snd st))"
      if "fd1 \<in> set (resolve d (TStruct n fs))" for fd1 st
    proof -
      consider "fst (snd (fieldStep cv d ns fd1 st)) = fst (snd st)"
        | x where "\<not> fd_ambiguous fd1"
            "fst (snd (fieldStep cv d ns fd1 st)) = setField (fd_index fd1) x (fst (snd st))"
        using fieldStep_values [of cv d ns fd1 st] by blast
      then show ?thesis
      proof cases
        case 1
        then show ?thesis by simp
      next
        case 2
        then show ?thesis
          using apart [OF that 2(1)] by (simp add: getField_setField_other)
      qed
    qed
    obtain r' vs' s where f: "fold (fieldStep cv d ns) (resolve d (TStruct n fs)) (r, vs, False) =
        (r', vs', s)"
      by (cases "fold (fieldStep cv d ns) (resolve d (TStruct n fs)) (r, vs, False)")
    have "getField (fd_index fd)
        (fst (snd (fold (fieldStep cv d ns) (resolve d (TStruct n fs)) (r, vs, False)))) =
      getField (fd_index fd) (fst (snd (r, vs, False)))"
      by (rule fold_fields_frame) (rule step)
    then have "getField (fd_index fd) vs' = getField (fd_index fd) vs"
      by (simp add: f)
    moreover have "traverse cv d (TStruct n fs) (VStruct vs) ns r = (r', VStruct vs', s)"
      by (simp only: traverse_struct f prod.case)
    ultimately show ?thesis by blast
  qed
  show ?thesis
    using amb skip kept by blast
qed

theorem ambiguous_field_skipped_by_its_record_witness:
  "fd_ambiguous \<lparr>fd_index = [0], fd_name = ''Field'', fd_type = TString, fd_anonymous = False,
      fd_depth = 0, fd_ambiguous = True\<rparr> \<and>
   resolve (NewDecoder :: unit Decoder)
     (TStruct ''main.C'' [StructField ''X'' [(''form'', ''Field'')] False TString,
                         StructField ''Field'' [] False TString]) =
     [\<lparr>fd_index = [0], fd_name = ''Field'', fd_type = TString, fd_anonymous = False,
        fd_depth = 0, fd_ambiguous = True\<rparr>,
      \<lparr>fd_index = [1], fd_name = ''Field'', fd_type = TString, fd_anonymous = False,
        fd_depth = 0, fd_ambiguous = True\<rparr>] \<and>
   (\<exists>r' vs' s.
      traverse string_conv (NewDecoder :: unit Decoder)
        (TStruct ''main.C'' [StructField ''X'' [(''form'', ''Field'')] False TString,
                            StructField ''Field'' [] False TString])
        (VStruct [VString ''x'', VString ''y'']) []
        \<lparr>run_dec = fst (Decode_acquire (NewDecoder :: unit Decoder) [(''Field'', [''v''])] ()),
          run_store = (\<lambda>a. []), run_calls = []\<rparr> = (r', VStruct vs', s) \<and>
      getField [0] vs' = Some (VString ''x'')) \<and>
   fst (snd (Decode (traverseStruct_spec string_conv) (setFieldByType_spec string_conv)
      (NewDecoder :: unit Decoder)
      (Iface (TPtr (TStruct ''main.C'' [StructField ''X'' [(''form'', ''Field'')] False TString,
                                       StructField ''Field'' [] False TString]))
         (VPtr (Some (VStruct [VString [], VString []]))))
      [(''Field'', [''v''])] () [] (\<lambda>a. []))) =
     Iface (TPtr (TStruct ''main.C'' [StructField ''X'' [(''form'', ''Field'')] False TString,
                                     StructField ''Field'' [] False TString]))
       (VPtr (Some (VStruct [VString [], VString []])))"
proof -
  let ?T = "[StructField ''X'' [(''form'', ''Field'')] False TString,
             StructField ''Field'' [] False TString]"
  let ?a = "\<lparr>fd_index = [0], fd_name = ''Field'', fd_type = TString, fd_anonymous = False,
      fd_depth = 0, fd_ambiguous = True\<rparr>"
  let ?b = "\<lparr>fd_index = [1], fd_name = ''Field'', fd_type = TString, fd_anonymous = False,
      fd_depth = 0, fd_ambiguous = True\<rparr>"
  let ?r = "\<lparr>run_dec = fst (Decode_acquire (NewDecoder :: unit Decoder) [(''Field'', [''v''])] ()),
      run_store = (\<lambda>a. []), run_calls = []\<rparr> :: unit run"
  have res: "resolve (NewDecoder :: unit Decoder) (TStruct ''main.C'' ?T) = [?a, ?b]"
    by code_simp
  have h1: "?a \<in> set (resolve (NewDecoder :: unit Decoder) (TStruct ''main.C'' ?T))"
    and h2: "?b \<in> set (resolve (NewDecoder :: unit Decoder) (TStruct ''main.C'' ?T))"
    unfolding res by simp_all
  have h3: "fd_index ?b \<noteq> fd_index ?a" and h4: "fd_name ?b = fd_name ?a"
    and h5: "fd_depth ?b = fd_depth ?a"
    by simp_all
  note inst = ambiguous_field_skipped_by_its_record [OF h1 h2 h3 h4 h5,
      of string_conv "[]" "(?r, [VString ''x'', VString ''y''], False)"
         "[VString ''x'', VString ''y'']" ?r]
  have amb: "fd_ambiguous ?a"
    using inst by blast
  have "\<not> fd_anonymous ?a" by simp
  then obtain r' vs' s where
      "traverse string_conv (NewDecoder :: unit Decoder) (TStruct ''main.C'' ?T)
         (VStruct [VString ''x'', VString ''y'']) [] ?r = (r', VStruct vs', s)"
      "getField (fd_index ?a) vs' = getField (fd_index ?a) [VString ''x'', VString ''y'']"
    using inst by blast
  then have kept: "\<exists>r' vs' s.
      traverse string_conv (NewDecoder :: unit Decoder) (TStruct ''main.C'' ?T)
        (VStruct [VString ''x'', VString ''y'']) [] ?r = (r', VStruct vs', s) \<and>
      getField [0] vs' = Some (VString ''x'')"
    by (intro exI [of _ r'] exI [of _ vs'] exI [of _ s]) (simp del: traverse.simps)
  have dec: "fst (snd (Decode (traverseStruct_spec string_conv) (setFieldByType_spec string_conv)
      (NewDecoder :: unit Decoder)
      (Iface (TPtr (TStruct ''main.C'' ?T)) (VPtr (Some (VStruct [VString [], VString []]))))
      [(''Field'', [''v''])] () [] (\<lambda>a. []))) =
     Iface (TPtr (TStruct ''main.C'' ?T)) (VPtr (Some (VStruct [VString [], VString []])))"
    by code_simp
  show ?thesis
    using amb res kept dec by (intro conjI)
qed

text \<open>
  C6 as the specification words it (never assigned, in every decode call) does not hold
  in two cases. First, a custom function registered for an enclosing record owns the
  assignment of the whole record (4.4): with
  \<^verbatim>\<open>type Inner struct { X string `form:"F"`; F string }\<close> and \<^verbatim>\<open>type Out struct { In Inner }\<close>,
  both fields of \<^verbatim>\<open>Inner\<close> are ambiguous, and the entry \<^verbatim>\<open>In\<close> makes the function for \<^verbatim>\<open>Inner\<close>
  assign them. Second, a field promoted from an embedded record stays reachable through
  the embedded record's own name: with \<^verbatim>\<open>type B struct { A1; A2 }\<close>, both embedded records
  having a field \<^verbatim>\<open>X\<close>, the promoted fields are ambiguous in \<^verbatim>\<open>B\<close>, and the entry \<^verbatim>\<open>A1.X\<close>
  assigns the first.
\<close>

theorem ambiguous_field_assigned_counterexample:
  "resolve
     (RegisterFunc (NewDecoder :: unit Decoder) (\<lambda>s a. Inr (VStruct [VString s, VString s]))
        [TStruct ''main.Inner'' [StructField ''X'' [(''form'', ''F'')] False TString,
                                StructField ''F'' [] False TString]])
     (TStruct ''main.Inner'' [StructField ''X'' [(''form'', ''F'')] False TString,
                             StructField ''F'' [] False TString]) =
     [\<lparr>fd_index = [0], fd_name = ''F'', fd_type = TString, fd_anonymous = False,
        fd_depth = 0, fd_ambiguous = True\<rparr>,
      \<lparr>fd_index = [1], fd_name = ''F'', fd_type = TString, fd_anonymous = False,
        fd_depth = 0, fd_ambiguous = True\<rparr>] \<and>
   fst (snd (Decode (traverseStruct_spec string_conv) (setFieldByType_spec string_conv)
      (RegisterFunc (NewDecoder :: unit Decoder) (\<lambda>s a. Inr (VStruct [VString s, VString s]))
        [TStruct ''main.Inner'' [StructField ''X'' [(''form'', ''F'')] False TString,
                                StructField ''F'' [] False TString]])
      (Iface (TPtr (TStruct ''main.Out''
           [StructField ''In'' [] False
              (TStruct ''main.Inner'' [StructField ''X'' [(''form'', ''F'')] False TString,
                                      StructField ''F'' [] False TString])]))
         (VPtr (Some (VStruct [VStruct [VString [], VString []]]))))
      [(''In'', [''v''])] () [] (\<lambda>a. []))) =
     Iface (TPtr (TStruct ''main.Out''
           [StructField ''In'' [] False
              (TStruct ''main.Inner'' [StructField ''X'' [(''form'', ''F'')] False TString,
                                      StructField ''F'' [] False TString])]))
       (VPtr (Some (VStruct [VStruct [VString ''v'', VString ''v'']]))) \<and>
   resolve (NewDecoder :: unit Decoder)
     (TStruct ''main.B''
        [StructField ''A1'' [] True (TStruct ''main.A1'' [StructField ''X'' [] False TString]),
         StructField ''A2'' [] True (TStruct ''main.A2'' [StructField ''X'' [] False TString])]) =
     [\<lparr>fd_index = [0, 0], fd_name = ''X'', fd_type = TString, fd_anonymous = True,
        fd_depth = 1, fd_ambiguous = True\<rparr>,
      \<lparr>fd_index = [0], fd_name = ''A1'',
        fd_type = TStruct ''main.A1'' [StructField ''X'' [] False TString],
        fd_anonymous = True, fd_depth = 0, fd_ambiguous = False\<rparr>,
      \<lparr>fd_index = [1, 0], fd_name = ''X'', fd_type = TString, fd_anonymous = True,
        fd_depth = 1, fd_ambiguous = True\<rparr>,
      \<lparr>fd_index = [1], fd_name = ''A2'',
        fd_type = TStruct ''main.A2'' [StructField ''X'' [] False TString],
        fd_anonymous = True, fd_depth = 0, fd_ambiguous = False\<rparr>] \<and>
   fst (snd (Decode (traverseStruct_spec string_conv) (setFieldByType_spec string_conv)
      (NewDecoder :: unit Decoder)
      (Iface (TPtr (TStruct ''main.B''
           [StructField ''A1'' [] True (TStruct ''main.A1'' [StructField ''X'' [] False TString]),
            StructField ''A2'' [] True (TStruct ''main.A2'' [StructField ''X'' [] False TString])]))
         (VPtr (Some (VStruct [VStruct [VString []], VStruct [VString []]]))))
      [(''A1.X'', [''v''])] () [] (\<lambda>a. []))) =
     Iface (TPtr (TStruct ''main.B''
           [StructField ''A1'' [] True (TStruct ''main.A1'' [StructField ''X'' [] False TString]),
            StructField ''A2'' [] True (TStruct ''main.A2'' [StructField ''X'' [] False TString])]))
       (VPtr (Some (VStruct [VStruct [VString ''v''], VStruct [VString []]])))"
  by (intro conjI; code_simp)

subsection \<open>Custom decode functions\<close>

lemma traverse_slice:
  "traverse cv d (TSlice t) v ns r =
     (let (rd, m) = indicesFor (dm (run_dec r)) (dec_values (run_dec r)) ns;
          r1 = r\<lparr>run_dec := (run_dec r)\<lparr>dm := m\<rparr>\<rparr>;
          nks = filter (\<lambda>k. isNumeric (key_value k)) (keys rd)
      in if nks = [] then (r1, v, False)
         else if list_ex (\<lambda>k. maxArraySize d \<le> ivalue k) nks then
           (setError r1 ns errArraySize, v, False)
         else
           let xs = (case v of VSlice ys \<Rightarrow> ys | _ \<Rightarrow> []);
               xs = xs @ replicate (nat (sliceLen rd) - length xs) (zero t);
               (r2, xs') = fold (elemStep cv d t ns) nks (r1, xs)
           in (r2, VSlice xs', True))"
proof -
  have "elemStep cv d t ns =
      (\<lambda>k (r, xs).
         let i = nat (ivalue k)
         in if i < length xs then
              let (r', x, set') = traverse cv d t (xs ! i) (indexPath ns (key_value k)) r
              in (r', xs[i := x])
            else (r, xs))"
    by (intro ext) (simp add: elemStep_def)
  then show ?thesis
    by (simp only: traverse.simps)
qed

lemma traverse_map:
  "traverse cv d (TMap kt vt) v ns r =
     (let (rd, m) = indicesFor (dm (run_dec r)) (dec_values (run_dec r)) ns;
          r1 = r\<lparr>run_dec := (run_dec r)\<lparr>dm := m\<rparr>\<rparr>
      in if keys rd = [] then (r1, v, False)
         else
           let es = (case v of VMap ys \<Rightarrow> ys | _ \<Rightarrow> []);
               (r2, es') = fold (entryStep cv d kt vt ns) (keys rd) (r1, es)
           in (r2, VMap es', True))"
proof -
  have "entryStep cv d kt vt ns =
      (\<lambda>k (r, es).
         let path = indexPath ns (key_value k);
             (r', x, set') = traverse cv d vt (zero vt) path r
         in case (if kt = TString then Inr (VString (key_value k)) else cv kt (key_value k)) of
              Inl e \<Rightarrow> (setError r' path e, es)
            | Inr kv \<Rightarrow> (r', map_store kv x es))"
    by (intro ext) (simp add: entryStep_def)
  then show ?thesis
    by (simp only: traverse.simps)
qed

lemma extends_refl: "extends r r"
  by (simp add: extends_def)

lemma extends_trans: "extends r r' \<Longrightarrow> extends r' r'' \<Longrightarrow> extends r r''"
  unfolding extends_def by (elim conjE exE) (rule conjI, simp, rule conjI, simp, fastforce)

lemma extends_setError: "extends r (setError r ns e)"
  by (simp add: extends_def setError_def)

lemma extends_mirror: "extends r (mirror r ns x)"
  by (simp add: extends_def mirror_def split: option.splits)

lemma extends_dm: "extends r (r\<lparr>run_dec := (run_dec r)\<lparr>dm := m\<rparr>\<rparr>)"
  by (simp add: extends_def)

lemma customFor_Some:
  assumes "customFor d r t ns = Some (cf, raw, a)"
  shows "ns \<in> fst ` set (dec_values (run_dec r))"
proof -
  from assms obtain vs where "map_of (dec_values (run_dec r)) ns = Some vs"
    by (auto simp: customFor_def split: option.splits)
  then show ?thesis
    by (metis map_of_SomeD fst_conv image_eqI)
qed

lemma extends_applyCustom:
  assumes "ns \<in> fst ` set (dec_values (run_dec r))"
  shows "extends r (fst (applyCustom cf a t raw ns v r))"
proof -
  let ?r1 = "r\<lparr>run_calls := run_calls r @ [(ns, t)]\<rparr>"
  have "extends r ?r1"
    using assms by (simp add: extends_def)
  moreover have "extends ?r1 (fst (applyCustom cf a t raw ns v r))"
    by (cases "cf raw a") (simp_all add: applyCustom_def extends_setError extends_mirror)
  ultimately show ?thesis by (rule extends_trans)
qed

lemma extends_scalar: "extends r (fst (scalar cv d t v ns r))"
proof (cases "map_of (dec_values (run_dec r)) ns")
  case None
  then show ?thesis by (simp add: scalar_def extends_refl)
next
  case (Some vs)
  show ?thesis
  proof (cases "customFor d r t ns")
    case None
    then show ?thesis
      using Some
      by (cases "cv t (rawValue vs)") (simp_all add: scalar_def extends_setError extends_mirror)
  next
    case (Some c)
    obtain cf raw a where c: "c = (cf, raw, a)" by (cases c)
    have "extends r (fst (applyCustom cf a t raw ns v r))"
      using Some c by (intro extends_applyCustom customFor_Some) simp
    then show ?thesis
      using Some c \<open>map_of (dec_values (run_dec r)) ns = Some vs\<close> by (simp add: scalar_def)
  qed
qed

lemma fold_extends:
  assumes "\<And>x st. x \<in> set xs \<Longrightarrow> extends (fst st) (fst (f x st))"
  shows "extends (fst st) (fst (fold f xs st))"
  using assms
proof (induction xs arbitrary: st)
  case Nil
  then show ?case by (simp add: extends_refl)
next
  case (Cons x xs)
  have "extends (fst st) (fst (f x st))" by (rule Cons.prems) simp
  moreover have "extends (fst (f x st)) (fst (fold f xs (f x st)))"
    by (rule Cons.IH) (rule Cons.prems, simp)
  ultimately show ?case
    by (simp add: extends_trans)
qed

lemma traverse_struct_any:
  "traverse cv d (TStruct n fs) v ns r =
     (case fold (fieldStep cv d ns) (resolve d (TStruct n fs))
             (r, (case v of VStruct ys \<Rightarrow> ys | _ \<Rightarrow> map zero_field fs), False) of
        (r', vs', set') \<Rightarrow> (r', VStruct vs', set'))"
proof -
  have "fieldStep cv d ns =
      (\<lambda>fd (r, vs, set').
          if fd_ambiguous fd then (r, vs, set')
          else
            let x0 = (case getField (fd_index fd) vs of
                        None \<Rightarrow> zero (fd_type fd)
                      | Some y \<Rightarrow> y);
                path = extendPath d ns (fd_name fd);
                (r', x, set'') =
                  (case customFor d r (fd_type fd) path of
                     Some (cf, raw, a) \<Rightarrow> applyCustom cf a (fd_type fd) raw path x0 r
                   | None \<Rightarrow> traverse cv d (fd_type fd) x0 path r)
            in (r', setField (fd_index fd) x vs, set' \<or> set''))"
    by (intro ext) (simp add: fieldStep_def)
  then show ?thesis
    by (simp only: traverse.simps Let_def)
qed

lemma traverse_extends: "extends r (fst (traverse cv d t v ns r))"
proof (induction cv d t v ns r rule: traverse.induct)
  case (1 cv d v ns r)
  then show ?case by (simp add: extends_scalar)
next
  case (2 cv d v ns r)
  then show ?case by (simp add: extends_scalar)
next
  case (3 cv d v ns r)
  then show ?case by (simp add: extends_scalar)
next
  case (4 cv d v ns r)
  then show ?case by (simp add: extends_scalar)
next
  case (5 cv d n v ns r)
  then show ?case by (simp add: extends_scalar)
next
  case (6 cv d t v ns r)
  have "fst (traverse cv d (TPtr t) v ns r) =
      fst (traverse cv d t (case v of VPtr None \<Rightarrow> zero t | VPtr (Some y) \<Rightarrow> y | _ \<Rightarrow> zero t) ns r)"
    by (simp add: split_def Let_def)
  then show ?case using 6 by simp
next
  case (7 cv d t v ns r)
  obtain rd m where im: "indicesFor (dm (run_dec r)) (dec_values (run_dec r)) ns = (rd, m)"
    by (cases "indicesFor (dm (run_dec r)) (dec_values (run_dec r)) ns")
  let ?r1 = "r\<lparr>run_dec := (run_dec r)\<lparr>dm := m\<rparr>\<rparr>"
  let ?nks = "filter (\<lambda>k. isNumeric (key_value k)) (keys rd)"
  have r1: "extends r ?r1" by (rule extends_dm)
  show ?case
  proof (cases "?nks = []")
    case True
    then show ?thesis using im r1 by (simp add: traverse_slice)
  next
    case ne: False
    show ?thesis
    proof (cases "list_ex (\<lambda>k. maxArraySize d \<le> ivalue k) ?nks")
      case True
      have "extends r (setError ?r1 ns errArraySize)"
        using r1 extends_setError by (rule extends_trans)
      then show ?thesis using im ne True by (simp add: traverse_slice)
    next
      case nex: False
      have IH: "extends r' (fst (traverse cv d t (xs ! nat (ivalue k)) (indexPath ns (key_value k)) r'))"
        if "k \<in> set ?nks" "nat (ivalue k) < length xs" for k r' xs
        using 7 [OF refl im [symmetric] refl refl ne nex refl refl that(1) refl that(2)] .
      have step: "extends (fst st) (fst (elemStep cv d t ns k st))" if "k \<in> set ?nks" for k st
      proof (cases st)
        case (Pair r' xs)
        show ?thesis
        proof (cases "nat (ivalue k) < length xs")
          case True
          then show ?thesis
            using IH [OF that True, of r'] Pair by (simp add: elemStep_def split_def Let_def)
        next
          case False
          then show ?thesis using Pair by (simp add: elemStep_def extends_refl)
        qed
      qed
      let ?xs0 = "(case v of VSlice ys \<Rightarrow> ys | _ \<Rightarrow> [])"
      let ?xs = "?xs0 @ replicate (nat (sliceLen rd) - length ?xs0) (zero t)"
      have "extends (fst (?r1, ?xs)) (fst (fold (elemStep cv d t ns) ?nks (?r1, ?xs)))"
        by (rule fold_extends) (rule step)
      then have "extends r (fst (fold (elemStep cv d t ns) ?nks (?r1, ?xs)))"
        using r1 by (auto intro: extends_trans)
      then show ?thesis
        using im ne nex by (simp add: traverse_slice split_def Let_def del: traverse.simps)
    qed
  qed
next
  case (8 cv d kt vt v ns r)
  obtain rd m where im: "indicesFor (dm (run_dec r)) (dec_values (run_dec r)) ns = (rd, m)"
    by (cases "indicesFor (dm (run_dec r)) (dec_values (run_dec r)) ns")
  let ?r1 = "r\<lparr>run_dec := (run_dec r)\<lparr>dm := m\<rparr>\<rparr>"
  have r1: "extends r ?r1" by (rule extends_dm)
  show ?case
  proof (cases "keys rd = []")
    case True
    then show ?thesis using im r1 by (simp add: traverse_map)
  next
    case ne: False
    have IH: "extends r' (fst (traverse cv d vt (zero vt) (indexPath ns (key_value k)) r'))"
      if "k \<in> set (keys rd)" for k r'
      using 8 [OF refl im [symmetric] refl ne refl that refl] .
    have step: "extends (fst st) (fst (entryStep cv d kt vt ns k st))" if "k \<in> set (keys rd)" for k st
    proof (cases st)
      case (Pair r' es)
      obtain r'' x s where tr: "traverse cv d vt (zero vt) (indexPath ns (key_value k)) r' = (r'', x, s)"
        by (cases "traverse cv d vt (zero vt) (indexPath ns (key_value k)) r'")
      have e: "extends r' r''" using IH [OF that, of r'] tr by simp
      have "extends r' (setError r'' (indexPath ns (key_value k)) e')" for e'
        using e extends_setError by (rule extends_trans)
      then show ?thesis
        using e Pair tr by (simp add: entryStep_def Let_def split: sum.splits)
    qed
    let ?es = "(case v of VMap ys \<Rightarrow> ys | _ \<Rightarrow> [])"
    have "extends (fst (?r1, ?es)) (fst (fold (entryStep cv d kt vt ns) (keys rd) (?r1, ?es)))"
      by (rule fold_extends) (rule step)
    then have "extends r (fst (fold (entryStep cv d kt vt ns) (keys rd) (?r1, ?es)))"
      using r1 by (auto intro: extends_trans)
    then show ?thesis
      using im ne by (simp add: traverse_map split_def Let_def del: traverse.simps)
  qed
next
  case (9 cv d n fs v ns r)
  let ?vs = "(case v of VStruct ys \<Rightarrow> ys | _ \<Rightarrow> map zero_field fs)"
  have IH: "extends r' (fst (traverse cv d (fd_type fd)
        (case getField (fd_index fd) vs of None \<Rightarrow> zero (fd_type fd) | Some y \<Rightarrow> y)
        (extendPath d ns (fd_name fd)) r'))"
    if "fd \<in> set (resolve d (TStruct n fs))" "\<not> fd_ambiguous fd"
      "customFor d r' (fd_type fd) (extendPath d ns (fd_name fd)) = None" for fd vs r'
    using 9 [OF refl that(1,2) refl refl that(3)] .
  have step: "extends (fst st) (fst (fieldStep cv d ns fd st))"
    if "fd \<in> set (resolve d (TStruct n fs))" for fd st
  proof -
    obtain r' vs s where st: "st = (r', vs, s)" by (cases st)
    show ?thesis
    proof (cases "fd_ambiguous fd")
      case True
      then show ?thesis using st by (simp add: fieldStep_def extends_refl)
    next
      case na: False
      let ?x0 = "(case getField (fd_index fd) vs of None \<Rightarrow> zero (fd_type fd) | Some y \<Rightarrow> y)"
      show ?thesis
      proof (cases "customFor d r' (fd_type fd) (extendPath d ns (fd_name fd))")
        case None
        then show ?thesis
          using IH [OF that na None, of vs] st na
          by (simp add: fieldStep_def split_def Let_def del: traverse.simps)
      next
        case c: (Some c)
        obtain cf raw a where cc: "c = (cf, raw, a)" by (cases c)
        have "extends r' (fst (applyCustom cf a (fd_type fd) raw (extendPath d ns (fd_name fd)) ?x0 r'))"
          using c cc by (intro extends_applyCustom customFor_Some) simp
        then show ?thesis
          using st na c cc by (simp add: fieldStep_def split_def Let_def)
      qed
    qed
  qed
  have "extends (fst (r, ?vs, False))
      (fst (fold (fieldStep cv d ns) (resolve d (TStruct n fs)) (r, ?vs, False)))"
    by (rule fold_extends) (rule step)
  then show ?case
    by (simp add: traverse_struct_any split_def del: traverse.simps)
qed

lemma extends_calls: "extends r r' \<Longrightarrow> set (run_calls r) \<subseteq> set (run_calls r')"
  by (auto simp: extends_def)

lemma extends_new_calls:
  "extends r r' \<Longrightarrow> c \<in> set (run_calls r') \<Longrightarrow> c \<notin> set (run_calls r) \<Longrightarrow>
     fst c \<in> fst ` set (dec_values (run_dec r))"
  by (auto simp: extends_def)

lemma run_calls_setError: "run_calls (setError r ns e) = run_calls r"
  by (simp add: setError_def)

lemma run_calls_mirror: "run_calls (mirror r ns x) = run_calls r"
  by (simp add: mirror_def split: option.splits)

lemma applyCustom_logs: "(ns, t) \<in> set (run_calls (fst (applyCustom cf a t raw ns v r)))"
  by (cases "cf raw a") (simp_all add: applyCustom_def run_calls_setError run_calls_mirror)

lemma fieldStep_extends: "extends (fst st) (fst (fieldStep cv d ns fd st))"
proof -
  obtain r vs s where st: "st = (r, vs, s)" by (cases st)
  show ?thesis
  proof (cases "fd_ambiguous fd")
    case True
    then show ?thesis using st by (simp add: fieldStep_def extends_refl)
  next
    case na: False
    let ?x0 = "(case getField (fd_index fd) vs of None \<Rightarrow> zero (fd_type fd) | Some y \<Rightarrow> y)"
    show ?thesis
    proof (cases "customFor d r (fd_type fd) (extendPath d ns (fd_name fd))")
      case None
      then show ?thesis
        using traverse_extends [of r cv d "fd_type fd" ?x0 "extendPath d ns (fd_name fd)"] st na
        by (simp add: fieldStep_def split_def Let_def del: traverse.simps)
    next
      case (Some c)
      obtain cf raw a where cc: "c = (cf, raw, a)" by (cases c)
      have "extends r (fst (applyCustom cf a (fd_type fd) raw (extendPath d ns (fd_name fd)) ?x0 r))"
        using Some cc by (intro extends_applyCustom customFor_Some) simp
      then show ?thesis
        using st na Some cc by (simp add: fieldStep_def split_def Let_def)
    qed
  qed
qed

lemma fieldStep_logs:
  assumes "\<not> fd_ambiguous fd"
    and "customTypeFuncs d (fd_type fd) = Some cf"
    and "decodeFuncArgument (run_dec r) = Some a"
    and "extendPath d ns (fd_name fd) \<in> fst ` set (dec_values (run_dec r))"
  shows "(extendPath d ns (fd_name fd), fd_type fd) \<in>
           set (run_calls (fst (fieldStep cv d ns fd (r, vs, s))))"
proof -
  let ?p = "extendPath d ns (fd_name fd)"
  let ?x0 = "(case getField (fd_index fd) vs of None \<Rightarrow> zero (fd_type fd) | Some y \<Rightarrow> y)"
  obtain ws where ws: "map_of (dec_values (run_dec r)) ?p = Some ws"
    using assms(4) by (metis map_of_eq_None_iff not_Some_eq)
  have c: "customFor d r (fd_type fd) ?p = Some (cf, rawValue ws, a)"
    using assms(2,3) ws by (simp add: customFor_def)
  have "fst (fieldStep cv d ns fd (r, vs, s)) =
      fst (applyCustom cf a (fd_type fd) (rawValue ws) ?p ?x0 r)"
    using assms(1) c by (simp add: fieldStep_def split_def Let_def)
  then show ?thesis
    by (simp add: applyCustom_logs)
qed

lemma fold_fieldStep_logs:
  assumes "fd \<in> set fds"
    and "\<not> fd_ambiguous fd"
    and "customTypeFuncs d (fd_type fd) = Some cf"
    and "decodeFuncArgument (run_dec (fst st)) = Some a"
    and "extendPath d ns (fd_name fd) \<in> fst ` set (dec_values (run_dec (fst st)))"
  shows "(extendPath d ns (fd_name fd), fd_type fd) \<in>
           set (run_calls (fst (fold (fieldStep cv d ns) fds st)))"
  using assms
proof (induction fds arbitrary: st)
  case Nil
  then show ?case by simp
next
  case (Cons x xs)
  let ?st = "fieldStep cv d ns x st"
  have ext: "extends (fst st) (fst ?st)" by (rule fieldStep_extends)
  show ?case
  proof (cases "x = fd")
    case True
    obtain r vs s where st: "st = (r, vs, s)" by (cases st)
    have "(extendPath d ns (fd_name fd), fd_type fd) \<in> set (run_calls (fst ?st))"
      using fieldStep_logs [of fd d cf r a ns cv vs s] Cons.prems True st by simp
    moreover have "extends (fst ?st) (fst (fold (fieldStep cv d ns) xs ?st))"
      by (rule fold_extends) (rule fieldStep_extends)
    ultimately show ?thesis
      using extends_calls by fastforce
  next
    case False
    then have mem: "fd \<in> set xs" using Cons.prems(1) by simp
    have a: "decodeFuncArgument (run_dec (fst ?st)) = Some a"
      and k: "extendPath d ns (fd_name fd) \<in> fst ` set (dec_values (run_dec (fst ?st)))"
      using ext Cons.prems(4,5) by (simp_all add: extends_def)
    have "(extendPath d ns (fd_name fd), fd_type fd) \<in>
        set (run_calls (fst (fold (fieldStep cv d ns) xs ?st)))"
      using Cons.IH [OF mem Cons.prems(2,3) a k] .
    then show ?thesis by simp
  qed
qed

text \<open>
  C7, as it holds. Wherever a custom function is invoked during a traversal, it is at a
  path for which the mapping has an entry with exactly that key: keys for paths beneath
  a record never invoke the function registered for the record. And when the traversal
  reaches the record that holds a field (no custom function has taken over an enclosing
  record), the field not being ambiguous and its declared type (a record type in
  particular) having a registered custom decode function, the function is invoked for
  the field's path exactly when the mapping has an entry whose key is that path.
\<close>

theorem custom_function_at_reached_field:
  assumes "fd \<in> set (resolve d (TStruct n fs))"
    and "\<not> fd_ambiguous fd"
    and "customTypeFuncs d (fd_type fd) = Some cf"
    and "decodeFuncArgument (run_dec r) = Some a"
    and "(extendPath d ns (fd_name fd), fd_type fd) \<notin> set (run_calls r)"
  shows "((extendPath d ns (fd_name fd), fd_type fd) \<in>
            set (run_calls (fst (traverse cv d (TStruct n fs) v ns r))) \<longleftrightarrow>
          extendPath d ns (fd_name fd) \<in> fst ` set (dec_values (run_dec r))) \<and>
         (\<forall>c \<in> set (run_calls (fst (traverse cv d t0 v0 ns0 r))).
            c \<in> set (run_calls r) \<or> fst c \<in> fst ` set (dec_values (run_dec r)))"
proof -
  let ?p = "extendPath d ns (fd_name fd)"
  let ?r' = "fst (traverse cv d (TStruct n fs) v ns r)"
  let ?vs = "(case v of VStruct ys \<Rightarrow> ys | _ \<Rightarrow> map zero_field fs)"
  have ext: "extends r ?r'" by (rule traverse_extends)
  have ext0: "extends r (fst (traverse cv d t0 v0 ns0 r))" by (rule traverse_extends)
  have only: "\<forall>c \<in> set (run_calls (fst (traverse cv d t0 v0 ns0 r))).
      c \<in> set (run_calls r) \<or> fst c \<in> fst ` set (dec_values (run_dec r))"
    using extends_new_calls [OF ext0] by blast
  have r': "?r' = fst (fold (fieldStep cv d ns) (resolve d (TStruct n fs)) (r, ?vs, False))"
    by (simp add: traverse_struct_any split_def del: traverse.simps)
  have "(?p, fd_type fd) \<in> set (run_calls ?r')" if "?p \<in> fst ` set (dec_values (run_dec r))"
    unfolding r'
    using fold_fieldStep_logs [OF assms(1,2,3), of "(r, ?vs, False)" a ns cv] assms(4) that
    by simp
  moreover have "?p \<in> fst ` set (dec_values (run_dec r))" if "(?p, fd_type fd) \<in> set (run_calls ?r')"
    using extends_new_calls [OF ext that assms(5)] by simp
  ultimately show ?thesis
    using only by blast
qed

theorem custom_function_at_reached_field_witness:
  "run_calls (fst (traverse string_conv
      (RegisterFunc (NewDecoder :: unit Decoder) (\<lambda>s a. Inr (VStruct [VString s]))
         [TStruct ''main.User'' [StructField ''Name'' [] False TString]])
      (TStruct ''main.Form''
         [StructField ''User'' [] False (TStruct ''main.User'' [StructField ''Name'' [] False TString])])
      (VStruct [VStruct [VString []]]) []
      \<lparr>run_dec = fst (Decode_acquire (NewDecoder :: unit Decoder) [(''User'', [''Name=joe''])] ()),
        run_store = (\<lambda>a. []), run_calls = []\<rparr>)) =
     [(''User'', TStruct ''main.User'' [StructField ''Name'' [] False TString])] \<and>
   run_calls (fst (traverse string_conv
      (RegisterFunc (NewDecoder :: unit Decoder) (\<lambda>s a. Inr (VStruct [VString s]))
         [TStruct ''main.User'' [StructField ''Name'' [] False TString]])
      (TStruct ''main.Form''
         [StructField ''User'' [] False (TStruct ''main.User'' [StructField ''Name'' [] False TString])])
      (VStruct [VStruct [VString []]]) []
      \<lparr>run_dec = fst (Decode_acquire (NewDecoder :: unit Decoder) [(''User.Name'', [''joe''])] ()),
        run_store = (\<lambda>a. []), run_calls = []\<rparr>)) = [] \<and>
   fst (snd (traverse string_conv
      (RegisterFunc (NewDecoder :: unit Decoder) (\<lambda>s a. Inr (VStruct [VString s]))
         [TStruct ''main.User'' [StructField ''Name'' [] False TString]])
      (TStruct ''main.Form''
         [StructField ''User'' [] False (TStruct ''main.User'' [StructField ''Name'' [] False TString])])
      (VStruct [VStruct [VString []]]) []
      \<lparr>run_dec = fst (Decode_acquire (NewDecoder :: unit Decoder) [(''User.Name'', [''joe''])] ()),
        run_store = (\<lambda>a. []), run_calls = []\<rparr>)) = VStruct [VStruct [VString ''joe'']] \<and>
   (extendPath (RegisterFunc (NewDecoder :: unit Decoder) (\<lambda>s a. Inr (VStruct [VString s]))
         [TStruct ''main.User'' [StructField ''Name'' [] False TString]]) [] ''User'',
    TStruct ''main.User'' [StructField ''Name'' [] False TString]) \<in>
     set (run_calls (fst (traverse string_conv
      (RegisterFunc (NewDecoder :: unit Decoder) (\<lambda>s a. Inr (VStruct [VString s]))
         [TStruct ''main.User'' [StructField ''Name'' [] False TString]])
      (TStruct ''main.Form''
         [StructField ''User'' [] False (TStruct ''main.User'' [StructField ''Name'' [] False TString])])
      (VStruct [VStruct [VString []]]) []
      \<lparr>run_dec = fst (Decode_acquire (NewDecoder :: unit Decoder) [(''User'', [''Name=joe''])] ()),
        run_store = (\<lambda>a. []), run_calls = []\<rparr>)))"
proof -
  let ?U = "TStruct ''main.User'' [StructField ''Name'' [] False TString]"
  let ?d = "RegisterFunc (NewDecoder :: unit Decoder) (\<lambda>s a. Inr (VStruct [VString s])) [?U]"
  let ?fd = "\<lparr>fd_index = [0], fd_name = ''User'', fd_type = ?U, fd_anonymous = False,
      fd_depth = 0, fd_ambiguous = False\<rparr>"
  let ?r = "\<lparr>run_dec = fst (Decode_acquire (NewDecoder :: unit Decoder) [(''User'', [''Name=joe''])] ()),
        run_store = (\<lambda>a. []), run_calls = []\<rparr> :: unit run"
  have res: "resolve ?d (TStruct ''main.Form'' [StructField ''User'' [] False ?U]) = [?fd]"
    by code_simp
  have h1: "?fd \<in> set (resolve ?d (TStruct ''main.Form'' [StructField ''User'' [] False ?U]))"
    unfolding res by simp
  have h2: "\<not> fd_ambiguous ?fd" by simp
  have h3: "customTypeFuncs ?d (fd_type ?fd) = Some (\<lambda>s a. Inr (VStruct [VString s]))"
    by (simp add: RegisterFunc_def)
  have h4: "decodeFuncArgument (run_dec ?r) = Some ()"
    by (simp add: Decode_acquire_def split_def Let_def)
  have h5: "(extendPath ?d [] (fd_name ?fd), fd_type ?fd) \<notin> set (run_calls ?r)" by simp
  have key: "extendPath ?d [] (fd_name ?fd) \<in> fst ` set (dec_values (run_dec ?r))"
    by (simp add: extendPath_def Decode_acquire_def split_def Let_def)
  have inv: "(extendPath ?d [] (fd_name ?fd), fd_type ?fd) \<in>
      set (run_calls (fst (traverse string_conv ?d
        (TStruct ''main.Form'' [StructField ''User'' [] False ?U])
        (VStruct [VStruct [VString []]]) [] ?r)))"
    using custom_function_at_reached_field [OF h1 h2 h3 h4 h5,
        of string_conv "VStruct [VStruct [VString []]]"] key
    by blast
  have c1: "run_calls (fst (traverse string_conv ?d
        (TStruct ''main.Form'' [StructField ''User'' [] False ?U])
        (VStruct [VStruct [VString []]]) [] ?r)) = [(''User'', ?U)]"
    by code_simp
  have c2: "run_calls (fst (traverse string_conv ?d
        (TStruct ''main.Form'' [StructField ''User'' [] False ?U])
        (VStruct [VStruct [VString []]]) []
        \<lparr>run_dec = fst (Decode_acquire (NewDecoder :: unit Decoder) [(''User.Name'', [''joe''])] ()),
          run_store = (\<lambda>a. []), run_calls = []\<rparr>)) = []"
    by code_simp
  have c3: "fst (snd (traverse string_conv ?d
        (TStruct ''main.Form'' [StructField ''User'' [] False ?U])
        (VStruct [VStruct [VString []]]) []
        \<lparr>run_dec = fst (Decode_acquire (NewDecoder :: unit Decoder) [(''User.Name'', [''joe''])] ()),
          run_store = (\<lambda>a. []), run_calls = []\<rparr>)) = VStruct [VStruct [VString ''joe'']]"
    by code_simp
  have inv': "(extendPath ?d [] ''User'', ?U) \<in>
      set (run_calls (fst (traverse string_conv ?d
        (TStruct ''main.Form'' [StructField ''User'' [] False ?U])
        (VStruct [VStruct [VString []]]) [] ?r)))"
    using inv by (simp only: FieldDescriptor.simps)
  show ?thesis
    using c1 c2 c3 inv' by (intro conjI)
qed

text \<open>
  C7 as the specification words it (invoked if and only if the entry exists, for every
  record-typed field) does not hold in two cases. First, a custom function registered
  for an enclosing record owns the assignment of the whole record (4.4): with \<^verbatim>\<open>type User struct { Name string }\<close>,
  \<^verbatim>\<open>type Form struct { User User }\<close> and \<^verbatim>\<open>type Out struct { Form Form }\<close>, functions
  registered for \<^verbatim>\<open>Form\<close> and for \<^verbatim>\<open>User\<close>, and entries under the keys \<^verbatim>\<open>Form\<close> and
  \<^verbatim>\<open>Form.User\<close>, only the function for \<^verbatim>\<open>Form\<close> is invoked, although the mapping has an
  entry whose key is the resolved path of the field \<^verbatim>\<open>User\<close>. Second, an ambiguous
  record-typed field is skipped: with
  \<^verbatim>\<open>type S struct { U1 User `form:"U"`; U2 User `form:"U"` }\<close> and an entry under the key \<^verbatim>\<open>U\<close>,
  the function for \<^verbatim>\<open>User\<close> is not invoked.
\<close>

theorem custom_function_not_invoked_counterexample:
  "map_option (\<lambda>f. f ''y'' ())
     (customTypeFuncs
        (RegisterFunc
           (RegisterFunc (NewDecoder :: unit Decoder) (\<lambda>s a. Inr (VStruct [VStruct [VString s]]))
              [TStruct ''main.Form''
                 [StructField ''User'' [] False
                    (TStruct ''main.User'' [StructField ''Name'' [] False TString])]])
           (\<lambda>s a. Inr (VStruct [VString s]))
           [TStruct ''main.User'' [StructField ''Name'' [] False TString]])
        (TStruct ''main.User'' [StructField ''Name'' [] False TString])) =
     Some (Inr (VStruct [VString ''y''])) \<and>
   map_of [(''Form'', [''x'']), (''Form.User'', [''y''])]
     (extendPath (NewDecoder :: unit Decoder) ''Form'' ''User'') = Some [''y''] \<and>
   run_calls (fst (traverse string_conv
      (RegisterFunc
         (RegisterFunc (NewDecoder :: unit Decoder) (\<lambda>s a. Inr (VStruct [VStruct [VString s]]))
            [TStruct ''main.Form''
               [StructField ''User'' [] False
                  (TStruct ''main.User'' [StructField ''Name'' [] False TString])]])
         (\<lambda>s a. Inr (VStruct [VString s]))
         [TStruct ''main.User'' [StructField ''Name'' [] False TString]])
      (TStruct ''main.Out''
         [StructField ''Form'' [] False
            (TStruct ''main.Form''
               [StructField ''User'' [] False
                  (TStruct ''main.User'' [StructField ''Name'' [] False TString])])])
      (VStruct [VStruct [VStruct [VString []]]]) []
      \<lparr>run_dec = fst (Decode_acquire (NewDecoder :: unit Decoder)
                         [(''Form'', [''x'']), (''Form.User'', [''y''])] ()),
        run_store = (\<lambda>a. []), run_calls = []\<rparr>)) =
     [(''Form'', TStruct ''main.Form''
         [StructField ''User'' [] False
            (TStruct ''main.User'' [StructField ''Name'' [] False TString])])] \<and>
   resolve
     (RegisterFunc (NewDecoder :: unit Decoder) (\<lambda>s a. Inr (VStruct [VString s]))
        [TStruct ''main.User'' [StructField ''Name'' [] False TString]])
     (TStruct ''main.S''
        [StructField ''U1'' [(''form'', ''U'')] False
           (TStruct ''main.User'' [StructField ''Name'' [] False TString]),
         StructField ''U2'' [(''form'', ''U'')] False
           (TStruct ''main.User'' [StructField ''Name'' [] False TString])]) =
     [\<lparr>fd_index = [0], fd_name = ''U'',
        fd_type = TStruct ''main.User'' [StructField ''Name'' [] False TString],
        fd_anonymous = False, fd_depth = 0, fd_ambiguous = True\<rparr>,
      \<lparr>fd_index = [1], fd_name = ''U'',
        fd_type = TStruct ''main.User'' [StructField ''Name'' [] False TString],
        fd_anonymous = False, fd_depth = 0, fd_ambiguous = True\<rparr>] \<and>
   run_calls (fst (traverse string_conv
      (RegisterFunc (NewDecoder :: unit Decoder) (\<lambda>s a. Inr (VStruct [VString s]))
         [TStruct ''main.User'' [StructField ''Name'' [] False TString]])
      (TStruct ''main.S''
         [StructField ''U1'' [(''form'', ''U'')] False
            (TStruct ''main.User'' [StructField ''Name'' [] False TString]),
          StructField ''U2'' [(''form'', ''U'')] False
            (TStruct ''main.User'' [StructField ''Name'' [] False TString])])
      (VStruct [VStruct [VString []], VStruct [VString []]]) []
      \<lparr>run_dec = fst (Decode_acquire (NewDecoder :: unit Decoder) [(''U'', [''y''])] ()),
        run_store = (\<lambda>a. []), run_calls = []\<rparr>)) = []"
  by (intro conjI; code_simp)

end
